theory Spec2Isabelle
  imports Complex_Main
begin

section \<open>Sprites\<close>

text \<open>
  The game of \<^verbatim>\<open>game.js\<close> is a list of sprites driven by a timer. A sprite is an object of
  one of the subclasses of \<^verbatim>\<open>Sprite\<close>; the class decides which \<^verbatim>\<open>move\<close>, \<^verbatim>\<open>interact\<close> and
  \<^verbatim>\<open>finished\<close> run. Every subclass passes a fixed name to the base constructor, so the
  name that \<^verbatim>\<open>interact\<close> switches on is a function of the class.

  Numbers that hold coordinates and speeds are modelled as reals, counters and scores as
  integers. The fields \<^verbatim>\<open>x\<close>, \<^verbatim>\<open>y\<close> of a sprite are called \<open>pos_x\<close>, \<open>pos_y\<close> here and the
  fields of a hitbox \<open>box_x\<close>, \<open>box_y\<close>, \<open>box_w\<close>, \<open>box_h\<close>; \<open>img_width\<close> and \<open>img_height\<close>
  stand for \<^verbatim>\<open>image.width\<close> and \<^verbatim>\<open>image.height\<close> (0 until the image has loaded). A sound
  handle is represented by the name of the sample that plays.
\<close>

datatype cls =
  TitleScreen | ClickToStart | Credits | GameOverMessage | NewHiScore
  | Player | Lamb | Broccoli | Onion | Knife | RoadLine | Sidewalk

fun name :: "cls \<Rightarrow> string" where
  "name TitleScreen = ''TitleScreen''"
| "name ClickToStart = ''ClickToStart''"
| "name Credits = ''Credits''"
| "name GameOverMessage = ''GameOver''"
| "name NewHiScore = ''NewHiScore''"
| "name Player = ''Player''"
| "name Lamb = ''Lamb''"
| "name Broccoli = ''Broccoli''"
| "name Onion = ''Onion''"
| "name Knife = ''Knife''"
| "name RoadLine = ''Road Line''"
| "name Sidewalk = ''Sidewalk''"

datatype knife_state = STATE_GROUNDED | STATE_THROWN

record rect =
  box_x :: real
  box_y :: real
  box_w :: real
  box_h :: real

type_synonym anim = "(nat \<times> nat) list"

record sprite =
  cls :: cls
  img_width :: real
  img_height :: real
  frameheight :: real
  animations :: "(string \<times> anim) list"
  pos_x :: real
  pos_y :: real
  animation :: "anim option"
  animFrame :: nat
  animFrameStep :: nat
  ready :: bool
  frames :: nat
  hitbox :: "rect option"
  sound :: "string option"
  speed :: real
  dead :: bool
  state :: "knife_state option"
  velocity :: "real \<times> real"

text \<open>A JavaScript value that is a boolean or \<^verbatim>\<open>undefined\<close>, and its truthiness.\<close>

datatype js_bool = JUndefined | JBool bool

fun truthy :: "js_bool \<Rightarrow> bool" where
  "truthy JUndefined = False"
| "truthy (JBool b) = b"

text \<open>What \<^verbatim>\<open>nextFrame\<close> hands to the renderer: \<^verbatim>\<open>null\<close>, \<^verbatim>\<open>undefined\<close> (an index outside
  \<^verbatim>\<open>frames\<close>) or the bitmap cut from the sheet at an index.\<close>

datatype image = Null | Undefined | Bitmap nat

definition PLAYFIELD_WIDTH :: real where
  "PLAYFIELD_WIDTH = 500"

definition PLAYFIELD_HEIGHT :: real where
  "PLAYFIELD_HEIGHT = 500"

definition playSample :: "string \<Rightarrow> string option" where
  "playSample nm = Some nm"

definition setAnimation :: "string \<Rightarrow> sprite \<Rightarrow> sprite" where
  "setAnimation nm this =
     this\<lparr>animation := map_of (animations this) nm, animFrame := 0, animFrameStep := 0\<rparr>"

text \<open>The base constructor. \<^verbatim>\<open>Object.keys(animations)[0]\<close> is the first key of the table;
  an empty table gives \<^verbatim>\<open>undefined\<close>, which names no animation.\<close>

definition Sprite :: "cls \<Rightarrow> real \<Rightarrow> (string \<times> anim) list \<Rightarrow> sprite" where
  "Sprite c fh anims =
     \<lparr>cls = c, img_width = 0, img_height = 0, frameheight = fh, animations = anims,
      pos_x = 0, pos_y = 0,
      animation = (case anims of [] \<Rightarrow> None | (k, _) # _ \<Rightarrow> map_of anims k),
      animFrame = 0, animFrameStep = 0,
      ready = False, frames = 0, hitbox = None, sound = None,
      speed = 0, dead = False, state = None, velocity = (0, 0)\<rparr>"

text \<open>\<^verbatim>\<open>image.onload\<close>: the natural size of the sheet becomes known and a sprite without a
  hitbox gets the whole frame as its hitbox. The promise of the cut frames resolves later:
  one bitmap for each \<^verbatim>\<open>y = 0, frameheight, ...\<close> below the height of the sheet.\<close>

definition image_onload :: "real \<Rightarrow> real \<Rightarrow> sprite \<Rightarrow> sprite" where
  "image_onload wd ht this =
     (let this1 = this\<lparr>img_width := wd, img_height := ht\<rparr>
      in case hitbox this1 of
           None \<Rightarrow> this1\<lparr>hitbox := Some \<lparr>box_x = 0, box_y = 0, box_w = wd, box_h = frameheight this1\<rparr>\<rparr>
         | Some _ \<Rightarrow> this1)"

definition frames_resolved :: "sprite \<Rightarrow> sprite" where
  "frames_resolved this =
     this\<lparr>frames := nat \<lceil>img_height this / frameheight this\<rceil>, ready := True\<rparr>"

text \<open>\<^verbatim>\<open>nextFrame\<close>. \<open>None\<close> is the \<^verbatim>\<open>TypeError\<close> of reading an index of \<^verbatim>\<open>undefined\<close>: no
  current animation, or a step index outside it. Both are raised before any field is
  written.\<close>

definition nextFrame :: "sprite \<Rightarrow> (image \<times> sprite) option" where
  "nextFrame this =
     (if \<not> ready this then Some (Null, this)
      else case animation this of
        None \<Rightarrow> None
      | Some an \<Rightarrow>
          if animFrame this < length an then
            (let current = an ! animFrame this;
                 this1 = (if animFrameStep this \<ge> snd current
                          then this\<lparr>animFrameStep := 0,
                                    animFrame := (if animFrame this + 1 \<ge> length an then 0
                                                  else animFrame this + 1)\<rparr>
                          else this);
                 k = fst (an ! animFrame this1);
                 result = (if k < frames this1 then Bitmap k else Undefined)
             in Some (result, this1\<lparr>animFrameStep := animFrameStep this1 + 1\<rparr>))
          else None)"

text \<open>Whether the next call of \<^verbatim>\<open>nextFrame\<close> takes the branch that leaves the current step,
  and the number of times \<open>n\<close> successive calls take it.\<close>

definition leaves_step :: "sprite \<Rightarrow> bool" where
  "leaves_step this =
     (ready this \<and>
      (case animation this of
         None \<Rightarrow> False
       | Some an \<Rightarrow> animFrame this < length an \<and> animFrameStep this \<ge> snd (an ! animFrame this)))"

fun nextFrame_times :: "nat \<Rightarrow> sprite \<Rightarrow> (nat \<times> sprite) option" where
  "nextFrame_times 0 this = Some (0, this)"
| "nextFrame_times (Suc n) this =
     (case nextFrame this of
        None \<Rightarrow> None
      | Some (img, this1) \<Rightarrow>
          (case nextFrame_times n this1 of
             None \<Rightarrow> None
           | Some (k, this2) \<Rightarrow> Some ((if leaves_step this then 1 else 0) + k, this2)))"

definition silence :: "sprite \<Rightarrow> sprite" where
  "silence this = (case sound this of None \<Rightarrow> this | Some _ \<Rightarrow> this\<lparr>sound := None\<rparr>)"

definition isOnScreen :: "sprite \<Rightarrow> bool" where
  "isOnScreen this =
     (if pos_x this > PLAYFIELD_WIDTH \<or> pos_x this < - img_width this then False
      else if pos_y this > PLAYFIELD_HEIGHT \<or> pos_y this < - frameheight this then False
      else True)"

definition ensureFullyOnScreen :: "sprite \<Rightarrow> sprite" where
  "ensureFullyOnScreen this =
     (if \<not> ready this then this
      else
        let t1 = (if pos_x this < 0 then this\<lparr>pos_x := 0\<rparr> else this);
            t2 = (if pos_x t1 > PLAYFIELD_WIDTH - img_width t1
                  then t1\<lparr>pos_x := PLAYFIELD_WIDTH - img_width t1\<rparr> else t1);
            t3 = (if pos_y t2 < 0 then t2\<lparr>pos_y := 0\<rparr> else t2)
        in if pos_y t3 > PLAYFIELD_HEIGHT - frameheight t3
           then t3\<lparr>pos_y := PLAYFIELD_HEIGHT - frameheight t3\<rparr> else t3)"

text \<open>\<^verbatim>\<open>intersects\<close>: the bare \<^verbatim>\<open>return;\<close> of the first line yields \<^verbatim>\<open>undefined\<close>.\<close>

definition intersects :: "sprite \<Rightarrow> sprite \<Rightarrow> js_bool" where
  "intersects this other =
     (case hitbox this of
        None \<Rightarrow> JUndefined
      | Some hb1 \<Rightarrow>
          (case hitbox other of
             None \<Rightarrow> JUndefined
           | Some hb2 \<Rightarrow>
               (let r1x = pos_x this + box_x hb1; r1y = pos_y this + box_y hb1;
                    r1w = box_w hb1; r1h = box_h hb1;
                    r2x = pos_x other + box_x hb2; r2y = pos_y other + box_y hb2;
                    r2w = box_w hb2; r2h = box_h hb2
                in JBool (r1x < r2x + r2w \<and> r1x + r1w > r2x \<and>
                          r1y < r2y + r2h \<and> r1h + r1y > r2y))))"


section \<open>The subclasses\<close>

definition new_TitleScreen :: sprite where
  "new_TitleScreen =
     (let this = Sprite TitleScreen 320 [(''idle'', [(0, 500)])]
      in this\<lparr>pos_x := PLAYFIELD_WIDTH / 2 - 380 / 2,
              pos_y := PLAYFIELD_HEIGHT / 2 - frameheight this / 2\<rparr>)"

definition new_ClickToStart :: sprite where
  "new_ClickToStart =
     (let this = Sprite ClickToStart 16
            [(''idle'', [(3, 4), (4, 4), (3, 4), (4, 4), (0, 6), (1, 6), (2, 6),
                        (3, 4), (4, 4), (3, 4), (4, 4)])]
      in this\<lparr>pos_x := PLAYFIELD_WIDTH / 2 - 256 / 2,
              pos_y := PLAYFIELD_HEIGHT / 2 - frameheight this / 2\<rparr>)"

definition new_Credits :: sprite where
  "new_Credits =
     (let this = Sprite Credits 16 [(''credits'', [(0, 20), (1, 20), (2, 20), (3, 20), (4, 20)])]
      in this\<lparr>pos_x := PLAYFIELD_WIDTH / 2 - 400 / 2,
              pos_y := PLAYFIELD_HEIGHT / 2 + 380 / 2\<rparr>)"

definition new_GameOverMessage :: sprite where
  "new_GameOverMessage =
     (let this = Sprite GameOverMessage 48 [(''idle'', [(0, 500)])]
      in this\<lparr>pos_x := PLAYFIELD_WIDTH / 2 - 304 / 2,
              pos_y := PLAYFIELD_HEIGHT / 2 - frameheight this / 2,
              sound := playSample ''teapotdeath''\<rparr>)"

definition new_NewHiScore :: sprite where
  "new_NewHiScore =
     (let this = Sprite NewHiScore 16 [(''flashing'', [(0, 5), (1, 5)])]
      in this\<lparr>pos_x := PLAYFIELD_WIDTH / 2 - 240 / 2,
              pos_y := PLAYFIELD_HEIGHT / 2 - frameheight this / 2 + 60\<rparr>)"

definition new_Player :: sprite where
  "new_Player =
     (let this = Sprite Player 32
            [(''idle'', [(0, 50)]), (''walking'', [(1, 5), (2, 5)]), (''dead'', [(3, 500)]),
             (''wielding'', [(4, 5), (5, 5), (6, 5), (7, 5)])];
          this = setAnimation ''wielding'' this
      in this\<lparr>pos_x := PLAYFIELD_WIDTH / 4,
              pos_y := PLAYFIELD_HEIGHT / 2,
              speed := 2.5,
              hitbox := Some \<lparr>box_x = 6, box_y = 4, box_w = 22, box_h = 21\<rparr>\<rparr>)"

text \<open>The constructors that call \<^verbatim>\<open>Math.random()\<close> take its result as the argument \<open>rnd\<close>.\<close>

definition new_Lamb :: "real \<Rightarrow> sprite" where
  "new_Lamb rnd =
     (let this = Sprite Lamb 32
            [(''idle'', [(0, 50)]), (''running'', [(1, 5), (2, 5), (3, 5)]), (''dead'', [(4, 500)])];
          this = setAnimation ''running'' this
      in this\<lparr>pos_x := PLAYFIELD_WIDTH,
              pos_y := rnd * (PLAYFIELD_HEIGHT - frameheight this),
              dead := False\<rparr>)"

definition new_Broccoli :: "real \<Rightarrow> sprite" where
  "new_Broccoli rnd =
     (let this = Sprite Broccoli 32 [(''idle'', [(0, 50)])]
      in this\<lparr>pos_x := PLAYFIELD_WIDTH,
              pos_y := rnd * (PLAYFIELD_HEIGHT - frameheight this),
              hitbox := Some \<lparr>box_x = 10, box_y = 6, box_w = 12, box_h = 16\<rparr>\<rparr>)"

text \<open>\<^verbatim>\<open>new Onion()\<close> reads the position of \<^verbatim>\<open>gamestate.player\<close> and \<^verbatim>\<open>gamestate.onionSpeed\<close>;
  they are the arguments \<open>px\<close>, \<open>py\<close> and \<open>ospeed\<close>.\<close>

definition new_Onion :: "real \<Rightarrow> real \<Rightarrow> real \<Rightarrow> sprite" where
  "new_Onion px py ospeed =
     (let this = Sprite Onion 32 [(''rolling'', [(0, 5), (1, 5), (2, 5), (3, 5)])];
          this = this\<lparr>pos_x := px\<rparr>;
          this = (if py < PLAYFIELD_HEIGHT / 2
                  then this\<lparr>pos_y := PLAYFIELD_HEIGHT, speed := - ospeed\<rparr>
                  else this\<lparr>pos_y := - (frameheight this - 1), speed := ospeed\<rparr>)
      in this\<lparr>hitbox := Some \<lparr>box_x = 6, box_y = 6, box_w = 20, box_h = 21\<rparr>\<rparr>)"

definition setState :: "knife_state \<Rightarrow> sprite \<Rightarrow> sprite" where
  "setState newState this =
     (let this1 = (case newState of
                     STATE_GROUNDED \<Rightarrow> silence (setAnimation ''grounded'' this)
                   | STATE_THROWN \<Rightarrow>
                       (silence (setAnimation ''thrown'' this))\<lparr>sound := playSample ''throw''\<rparr>)
      in this1\<lparr>state := Some newState\<rparr>)"

definition new_Knife :: "knife_state \<Rightarrow> real \<Rightarrow> sprite" where
  "new_Knife initialState rnd =
     (let this = Sprite Knife 32
            [(''grounded'', [(0, 50)]), (''thrown'', [(0, 2), (1, 2), (2, 2), (3, 2)])];
          this = this\<lparr>pos_x := PLAYFIELD_WIDTH,
                      pos_y := rnd * PLAYFIELD_HEIGHT - frameheight this,
                      hitbox := Some \<lparr>box_x = 6, box_y = 5, box_w = 9, box_h = 9\<rparr>\<rparr>;
          this = setState initialState this
      in this\<lparr>velocity := (6, 0)\<rparr>)"

definition new_RoadLine :: "real \<Rightarrow> sprite" where
  "new_RoadLine y =
     (let this = Sprite RoadLine 8 [(''idle'', [(0, 500)])]
      in this\<lparr>pos_x := PLAYFIELD_WIDTH, pos_y := y\<rparr>)"

definition new_Sidewalk :: sprite where
  "new_Sidewalk =
     (let this = Sprite Sidewalk 32 [(''idle'', [(0, 500)])]
      in this\<lparr>pos_x := PLAYFIELD_WIDTH, pos_y := 0\<rparr>)"

definition Lamb_die :: "sprite \<Rightarrow> sprite" where
  "Lamb_die this = (setAnimation ''dead'' this)\<lparr>dead := True, sound := playSample ''lambkill''\<rparr>"

definition ROAD_LINE_YS :: "real list" where
  "ROAD_LINE_YS = [(PLAYFIELD_HEIGHT / 4) * 1, (PLAYFIELD_HEIGHT / 4) * 2, (PLAYFIELD_HEIGHT / 4) * 3]"

section \<open>The game state\<close>

datatype phase = PHASE_ATTRACT | PHASE_RUNNING | PHASE_GAME_OVER

record inputs =
  left :: bool
  right :: bool
  down :: bool
  up :: bool
  fire :: bool

type_synonym ref = nat

record gamestate =
  phase :: phase
  frameDelay :: int
  bgsprites :: "ref list"
  sprites :: "ref list"
  inputs :: inputs
  player :: "ref option"
  teabags :: int
  knives :: int
  score :: int
  knifeThrowCooldown :: int
  lamb :: "ref option"
  lambSpeed :: real
  roadSpeed :: real
  broccoliFrequency :: int
  nextBroccoli :: int
  onionFrequency :: int
  minOnionScore :: int
  nextOnion :: int
  onionSpeed :: real
  knifeFrequency :: int
  nextKnife :: int
  roadLineFrequency :: int
  nextRoadLine :: int
  sidewalkFrequency :: int
  nextSidewalk :: int
  gameOverMusicDelay :: int

definition KNIFE_COOLDOWN_FRAMES :: int where
  "KNIFE_COOLDOWN_FRAMES = 20"

text \<open>\<^verbatim>\<open>inputs.fire\<close> is absent from the initial object; it is only tested for truthiness, so
  the absent field is \<open>False\<close>. A sprite is referred to by its address in the heap below;
  \<^verbatim>\<open>null\<close> is \<open>None\<close>.\<close>

definition INITIAL_GAMESTATE :: gamestate where
  "INITIAL_GAMESTATE =
     \<lparr>phase = PHASE_ATTRACT, frameDelay = 10, bgsprites = [], sprites = [],
      inputs = \<lparr>left = False, right = False, down = False, up = False, fire = False\<rparr>,
      player = None, teabags = 3, knives = 3, score = 0,
      knifeThrowCooldown = KNIFE_COOLDOWN_FRAMES,
      lamb = None, lambSpeed = 1.5, roadSpeed = 3,
      broccoliFrequency = 40, nextBroccoli = 40,
      onionFrequency = 200, minOnionScore = 5000, nextOnion = 0, onionSpeed = 4,
      knifeFrequency = 400, nextKnife = 400,
      roadLineFrequency = 100, nextRoadLine = 0,
      sidewalkFrequency = 41, nextSidewalk = 0,
      gameOverMusicDelay = 50\<rparr>"

text \<open>
  Everything the script can reach: the \<^verbatim>\<open>gamestate\<close> object, the objects its arrays and
  fields refer to (a heap from addresses to sprites, with the next free address), the
  variables \<^verbatim>\<open>hiScore\<close>, \<^verbatim>\<open>currentBgMusic\<close> and \<^verbatim>\<open>ready\<close>, the item of \<^verbatim>\<open>localStorage\<close> under
  \<^verbatim>\<open>HISCORE_STORAGE_KEY\<close> (the outer \<open>None\<close>: no \<^verbatim>\<open>localStorage\<close>), what has been drawn on the
  canvas since it was last cleared, and the results that \<^verbatim>\<open>Math.random()\<close> is going to give.
\<close>

record world =
  gamestate :: gamestate
  heap :: "ref \<Rightarrow> sprite"
  next_ref :: ref
  hiScore :: int
  localStorage :: "int option option"
  currentBgMusic :: "string option"
  loop_ready :: bool
  canvas :: "(image \<times> real \<times> real) list"
  random_seq :: "nat \<Rightarrow> real"
  random_pos :: nat

definition Math_random :: "world \<Rightarrow> real \<times> world" where
  "Math_random w = (random_seq w (random_pos w), w\<lparr>random_pos := Suc (random_pos w)\<rparr>)"

definition new :: "sprite \<Rightarrow> world \<Rightarrow> ref \<times> world" where
  "new obj w = (next_ref w, w\<lparr>heap := (heap w)(next_ref w := obj), next_ref := Suc (next_ref w)\<rparr>)"

definition upd :: "ref \<Rightarrow> (sprite \<Rightarrow> sprite) \<Rightarrow> world \<Rightarrow> world" where
  "upd r f w = w\<lparr>heap := (heap w)(r := f (heap w r))\<rparr>"

definition push :: "ref \<Rightarrow> world \<Rightarrow> world" where
  "push r w = gamestate_update (sprites_update (\<lambda>xs. xs @ [r])) w"

definition push_bg :: "ref \<Rightarrow> world \<Rightarrow> world" where
  "push_bg r w = gamestate_update (bgsprites_update (\<lambda>xs. xs @ [r])) w"

definition setMusic :: "string option \<Rightarrow> world \<Rightarrow> world" where
  "setMusic nm w =
     (case nm of
        None \<Rightarrow> w\<lparr>currentBgMusic := None\<rparr>
      | Some n \<Rightarrow> w\<lparr>currentBgMusic := playSample n\<rparr>)"

definition silenceAllSprites :: "world \<Rightarrow> world" where
  "silenceAllSprites w =
     (let w1 = foldl (\<lambda>v s. upd s silence v) w (sprites (gamestate w))
      in foldl (\<lambda>v s. upd s silence v) w1 (bgsprites (gamestate w1)))"

fun setGamePhase :: "phase \<Rightarrow> world \<Rightarrow> world" where
  "setGamePhase PHASE_ATTRACT w =
     (let w = silenceAllSprites w;
          w = setMusic (Some ''attractmusic'') w;
          w = gamestate_update (phase_update (\<lambda>_. PHASE_ATTRACT)) w;
          w = gamestate_update (sprites_update (\<lambda>_. [])) w;
          (r, w) = new new_TitleScreen w; w = push r w;
          (r, w) = new new_ClickToStart w; w = push r w;
          (r, w) = new new_Credits w; w = push r w
      in gamestate_update (frameDelay_update (\<lambda>_. 100)) w)"
| "setGamePhase PHASE_RUNNING w =
     (let w = setMusic (Some ''runningmusic'') w;
          w = w\<lparr>gamestate := INITIAL_GAMESTATE\<rparr>;
          w = gamestate_update (phase_update (\<lambda>_. PHASE_RUNNING)) w;
          (r, w) = new new_Player w;
          w = gamestate_update (player_update (\<lambda>_. Some r)) w
      in push r w)"
| "setGamePhase PHASE_GAME_OVER w =
     (let w = silenceAllSprites w;
          w = setMusic None w;
          w = gamestate_update (phase_update (\<lambda>_. PHASE_GAME_OVER)) w;
          (r, w) = new new_GameOverMessage w; w = push r w;
          w = gamestate_update (frameDelay_update (\<lambda>_. 100)) w
      in if score (gamestate w) > hiScore w then
           (let w = w\<lparr>hiScore := score (gamestate w)\<rparr>;
                (r, w) = new new_NewHiScore w; w = push r w
            in case localStorage w of
                 None \<Rightarrow> w
               | Some _ \<Rightarrow> w\<lparr>localStorage := Some (Some (score (gamestate w)))\<rparr>)
         else w)"

declare setGamePhase.simps [simp del]


section \<open>Methods that change the game state\<close>

definition spendKnife :: "bool \<Rightarrow> ref \<Rightarrow> world \<Rightarrow> bool \<times> world" where
  "spendKnife soundOnFail this w =
     (if knives (gamestate w) = 0 then
        (False, if soundOnFail then upd this (\<lambda>s. s\<lparr>sound := playSample ''outtaknives''\<rparr>) w else w)
      else
        let w = gamestate_update (knives_update (\<lambda>k. k - 1)) w;
            w = (if knives (gamestate w) = 0 then upd this (setAnimation ''walking'') w else w)
        in (True, w))"

definition Player_die :: "ref \<Rightarrow> world \<Rightarrow> world" where
  "Player_die this w = setGamePhase PHASE_GAME_OVER (upd this (setAnimation ''dead'') w)"

text \<open>\<^verbatim>\<open>Player.move\<close> in the order of its source: the four tests of the direction inputs
  (\<open>Player_steer\<close>), the test of the fire input (\<open>Player_fire\<close>), and
  \<^verbatim>\<open>ensureFullyOnScreen\<close>. \<open>None\<close> is the \<^verbatim>\<open>TypeError\<close> of reading \<^verbatim>\<open>this.hitbox.w\<close> when
  there is no hitbox.\<close>

definition Player_steer :: "ref \<Rightarrow> world \<Rightarrow> world" where
  "Player_steer this w =
     (let w = (if left (inputs (gamestate w))
               then upd this (\<lambda>s. s\<lparr>pos_x := pos_x s - speed s\<rparr>) w else w);
          w = (if right (inputs (gamestate w))
               then upd this (\<lambda>s. s\<lparr>pos_x := pos_x s + speed s\<rparr>) w else w);
          w = (if up (inputs (gamestate w))
               then upd this (\<lambda>s. s\<lparr>pos_y := pos_y s - speed s\<rparr>) w else w)
      in if down (inputs (gamestate w))
         then upd this (\<lambda>s. s\<lparr>pos_y := pos_y s + speed s\<rparr>) w else w)"

definition Player_fire :: "ref \<Rightarrow> world \<Rightarrow> world option" where
  "Player_fire this w =
     (if fire (inputs (gamestate w)) then
        (if knifeThrowCooldown (gamestate w) = 0 then
           (let w = gamestate_update (knifeThrowCooldown_update (\<lambda>_. KNIFE_COOLDOWN_FRAMES)) w;
                (spent, w) = spendKnife True this w
            in if spent then
                 (let (rnd, w) = Math_random w;
                      (knife, w) = new (new_Knife STATE_THROWN rnd) w;
                      w = push knife w
                  in case hitbox (heap w this) of
                       None \<Rightarrow> None
                     | Some hb \<Rightarrow>
                         Some (upd knife (\<lambda>k. k\<lparr>pos_x := pos_x (heap w this) + box_w hb,
                                                 pos_y := pos_y (heap w this)\<rparr>) w))
               else Some w)
         else Some w)
      else Some w)"

definition Player_move :: "ref \<Rightarrow> world \<Rightarrow> world option" where
  "Player_move this w =
     (case Player_fire this (Player_steer this w) of
        None \<Rightarrow> None
      | Some w' \<Rightarrow> Some (upd this ensureFullyOnScreen w'))"

definition Lamb_move :: "ref \<Rightarrow> world \<Rightarrow> world" where
  "Lamb_move this w =
     (if dead (heap w this)
      then upd this (\<lambda>s. s\<lparr>pos_x := pos_x s - roadSpeed (gamestate w)\<rparr>) w
      else upd this (\<lambda>s. s\<lparr>pos_x := pos_x s - lambSpeed (gamestate w)\<rparr>) w)"

definition Onion_move :: "ref \<Rightarrow> world \<Rightarrow> world" where
  "Onion_move this w = upd this (\<lambda>s. s\<lparr>pos_y := pos_y s + speed s\<rparr>) w"

definition Knife_move :: "ref \<Rightarrow> world \<Rightarrow> world" where
  "Knife_move this w =
     (case state (heap w this) of
        Some STATE_GROUNDED \<Rightarrow> upd this (\<lambda>s. s\<lparr>pos_x := pos_x s - roadSpeed (gamestate w)\<rparr>) w
      | Some STATE_THROWN \<Rightarrow>
          upd this (\<lambda>s. s\<lparr>pos_x := pos_x s + fst (velocity s),
                           pos_y := pos_y s + snd (velocity s)\<rparr>) w
      | None \<Rightarrow> w)"

text \<open>\<^verbatim>\<open>Broccoli.move\<close>, \<^verbatim>\<open>RoadLine.move\<close> and \<^verbatim>\<open>Sidewalk.move\<close> have the same body.\<close>

definition road_move :: "ref \<Rightarrow> world \<Rightarrow> world" where
  "road_move this w = upd this (\<lambda>s. s\<lparr>pos_x := pos_x s - roadSpeed (gamestate w)\<rparr>) w"

text \<open>The call \<^verbatim>\<open>s.move()\<close>: the class of the receiver selects the body; the classes that do
  not override it inherit the empty \<^verbatim>\<open>Sprite.move\<close>.\<close>

definition move_method :: "ref \<Rightarrow> world \<Rightarrow> world option" where
  "move_method this w =
     (case cls (heap w this) of
        Player \<Rightarrow> Player_move this w
      | Lamb \<Rightarrow> Some (Lamb_move this w)
      | Broccoli \<Rightarrow> Some (road_move this w)
      | Onion \<Rightarrow> Some (Onion_move this w)
      | Knife \<Rightarrow> Some (Knife_move this w)
      | RoadLine \<Rightarrow> Some (road_move this w)
      | Sidewalk \<Rightarrow> Some (road_move this w)
      | _ \<Rightarrow> Some w)"

text \<open>The call \<^verbatim>\<open>s.finished()\<close>: \<^verbatim>\<open>Knife\<close> overrides it to silence a knife that has left the
  screen.\<close>

definition finished :: "ref \<Rightarrow> world \<Rightarrow> bool \<times> world" where
  "finished this w =
     (let f = \<not> isOnScreen (heap w this)
      in if cls (heap w this) = Knife \<and> f then (f, upd this silence w) else (f, w))"

definition Player_interact :: "ref \<Rightarrow> ref \<Rightarrow> world \<Rightarrow> world" where
  "Player_interact this other w =
     (let nm = name (cls (heap w other))
      in if nm = ''Broccoli'' \<or> nm = ''Onion'' then
           (if truthy (intersects (heap w this) (heap w other)) then Player_die this w else w)
         else if nm = ''Lamb'' then
           (if truthy (intersects (heap w this) (heap w other)) then
              (if dead (heap w other) then w
               else
                 (let (spent, w1) = spendKnife False this w
                  in if \<not> spent then w1
                     else
                       (let w2 = upd other Lamb_die w1
                        in gamestate_update (score_update (\<lambda>n. n + 1000)) w2)))
            else w)
         else if nm = ''Knife'' then
           (if truthy (intersects (heap w this) (heap w other)) then
              (if state (heap w other) = Some STATE_GROUNDED then
                 (let w = gamestate_update (knives_update (\<lambda>k. k + 1)) w;
                      w = (if knives (gamestate w) = 1
                           then upd this (setAnimation ''wielding'') w else w);
                      w = gamestate_update (score_update (\<lambda>n. n + 100)) w
                  in upd other (\<lambda>s. s\<lparr>pos_x := - 100\<rparr>) w)
               else Player_die this w)
            else w)
         else w)"

definition Knife_interact :: "ref \<Rightarrow> ref \<Rightarrow> world \<Rightarrow> world" where
  "Knife_interact this other w =
     (if state (heap w this) \<noteq> Some STATE_THROWN then w
      else
        let nm = name (cls (heap w other))
        in if nm = ''Broccoli'' \<or> nm = ''Onion'' then
             (if truthy (intersects (heap w this) (heap w other))
              then upd this (setState STATE_GROUNDED) w else w)
           else if nm = ''Lamb'' then
             (if truthy (intersects (heap w this) (heap w other)) then
                (if dead (heap w other) then w
                 else
                   (let w = upd other Lamb_die w;
                        w = gamestate_update (score_update (\<lambda>n. n + 1000)) w;
                        w = upd this (\<lambda>s. s\<lparr>velocity := (fst (velocity s) * (- 1), snd (velocity s))\<rparr>) w;
                        (rnd, w) = Math_random w
                    in upd this (\<lambda>s. s\<lparr>velocity := (fst (velocity s), rnd * 4 - 2)\<rparr>) w))
              else w)
           else w)"

text \<open>The call \<^verbatim>\<open>s1.interact(s2)\<close>; the other classes inherit the empty \<^verbatim>\<open>Sprite.interact\<close>.\<close>

definition interact_method :: "ref \<Rightarrow> ref \<Rightarrow> world \<Rightarrow> world" where
  "interact_method this other w =
     (case cls (heap w this) of
        Player \<Rightarrow> Player_interact this other w
      | Knife \<Rightarrow> Knife_interact this other w
      | _ \<Rightarrow> w)"

section \<open>The two passes over an array of sprites\<close>

text \<open>
  \<^verbatim>\<open>move(sprites)\<close> is called with \<^verbatim>\<open>gamestate.bgsprites\<close> and with \<^verbatim>\<open>gamestate.sprites\<close>; the
  array it was given is named by a \<open>coll\<close>. Neither array object is replaced while a pass
  runs, so the array is read from the current game state.

  The loop \<^verbatim>\<open>for (var i = sprites.length - 1; i >= 0; i--)\<close> is \<open>move_loop\<close> on \<open>i + 1\<close>.
  A read of \<^verbatim>\<open>sprites[i]\<close> outside the array gives \<^verbatim>\<open>undefined\<close> and the method call on it
  raises a \<^verbatim>\<open>TypeError\<close>: the result \<open>None\<close>. The last argument of \<open>move_loop\<close> collects
  the receivers of \<^verbatim>\<open>move()\<close> in the order of the calls; the loop never reads it.
\<close>

datatype coll = Bg | Fg

fun the_array :: "coll \<Rightarrow> world \<Rightarrow> ref list" where
  "the_array Bg w = bgsprites (gamestate w)"
| "the_array Fg w = sprites (gamestate w)"

fun splice :: "coll \<Rightarrow> nat \<Rightarrow> world \<Rightarrow> world" where
  "splice Bg i w = gamestate_update (bgsprites_update (\<lambda>xs. take i xs @ drop (Suc i) xs)) w"
| "splice Fg i w = gamestate_update (sprites_update (\<lambda>xs. take i xs @ drop (Suc i) xs)) w"

fun move_loop :: "coll \<Rightarrow> nat \<Rightarrow> world \<Rightarrow> ref list \<Rightarrow> (ref list \<times> world) option" where
  "move_loop c 0 w calls = Some (calls, w)"
| "move_loop c (Suc i) w calls =
     (if i < length (the_array c w) then
        (let s = the_array c w ! i
         in case move_method s w of
              None \<Rightarrow> None
            | Some w1 \<Rightarrow>
                (let (f, w2) = finished s w1;
                     w3 = (if f then splice c i w2 else w2)
                 in move_loop c i w3 (calls @ [s])))
      else None)"

definition move :: "coll \<Rightarrow> world \<Rightarrow> (ref list \<times> world) option" where
  "move c w = move_loop c (length (the_array c w)) w []"

text \<open>
  \<^verbatim>\<open>interact(sprites)\<close> is only called with \<^verbatim>\<open>gamestate.sprites\<close>. The inner loop
  \<^verbatim>\<open>for (var s2 of sprites)\<close> reads the length of the array before every step, so it also
  visits what \<^verbatim>\<open>s1.interact\<close> has pushed; \<open>None\<close> from \<open>interact_scan\<close> is a scan that never
  ends.
\<close>

partial_function (option) interact_scan :: "ref \<Rightarrow> nat \<Rightarrow> world \<Rightarrow> world option" where
  "interact_scan s1 j w =
     (if j < length (sprites (gamestate w))
      then interact_scan s1 (Suc j) (interact_method s1 (sprites (gamestate w) ! j) w)
      else Some w)"

declare interact_scan.simps [code]

fun interact_loop :: "nat \<Rightarrow> world \<Rightarrow> world option" where
  "interact_loop 0 w = Some w"
| "interact_loop (Suc i) w =
     (if i < length (sprites (gamestate w)) then
        (let s1 = sprites (gamestate w) ! i
         in case interact_scan s1 0 w of
              None \<Rightarrow> None
            | Some w1 \<Rightarrow>
                (let (f, w2) = finished s1 w1;
                     w3 = (if f then splice Fg i w2 else w2)
                 in interact_loop i w3))
      else None)"

definition interact :: "world \<Rightarrow> world option" where
  "interact w = interact_loop (length (sprites (gamestate w))) w"


section \<open>The game loop\<close>

definition spawn_Lamb :: "world \<Rightarrow> world" where
  "spawn_Lamb w =
     (let (rnd, w) = Math_random w;
          (r, w) = new (new_Lamb rnd) w;
          w = gamestate_update (lamb_update (\<lambda>_. Some r)) w
      in push r w)"

text \<open>The branch of \<^verbatim>\<open>gameloop\<close> for \<^verbatim>\<open>PHASE_RUNNING\<close>: one definition for each of its
  commented blocks, in their order. A test \<^verbatim>\<open>n-- == 0\<close> compares the old value and
  decrements in either case. \<open>None\<close> is a \<^verbatim>\<open>TypeError\<close>: \<^verbatim>\<open>new Onion()\<close> reading the position
  of a \<^verbatim>\<open>null\<close> player, or one raised by a pass.\<close>

definition new_lamb :: "world \<Rightarrow> world" where
  "new_lamb w =
     (case lamb (gamestate w) of
        None \<Rightarrow> spawn_Lamb w
      | Some l \<Rightarrow> (let (f, w) = finished l w in if f then spawn_Lamb w else w))"

definition new_broccoli :: "world \<Rightarrow> world" where
  "new_broccoli w =
     (let old = nextBroccoli (gamestate w);
          w = gamestate_update (nextBroccoli_update (\<lambda>n. n - 1)) w
      in if old = 0 then
           (let w = gamestate_update (nextBroccoli_update (\<lambda>_. broccoliFrequency (gamestate w))) w;
                (rnd, w) = Math_random w;
                (r, w) = new (new_Broccoli rnd) w
            in push r w)
         else w)"

definition new_road_lines :: "world \<Rightarrow> world" where
  "new_road_lines w =
     (let old = nextRoadLine (gamestate w);
          w = gamestate_update (nextRoadLine_update (\<lambda>n. n - 1)) w
      in if old = 0 then
           (let w = gamestate_update (nextRoadLine_update (\<lambda>_. roadLineFrequency (gamestate w))) w
            in foldl (\<lambda>v y. let (r, v) = new (new_RoadLine y) v in push_bg r v) w ROAD_LINE_YS)
         else w)"

definition new_sidewalk :: "world \<Rightarrow> world" where
  "new_sidewalk w =
     (let old = nextSidewalk (gamestate w);
          w = gamestate_update (nextSidewalk_update (\<lambda>n. n - 1)) w
      in if old = 0 then
           (let w = gamestate_update (nextSidewalk_update (\<lambda>_. sidewalkFrequency (gamestate w))) w;
                (r, w) = new new_Sidewalk w
            in push_bg r w)
         else w)"

definition new_onions :: "world \<Rightarrow> world option" where
  "new_onions w =
     (if score (gamestate w) > minOnionScore (gamestate w) then
        (let old = nextOnion (gamestate w);
             w = gamestate_update (nextOnion_update (\<lambda>n. n - 1)) w
         in if old = 0 then
              (case player (gamestate w) of
                 None \<Rightarrow> None
               | Some p \<Rightarrow>
                   (let (r, w) = new (new_Onion (pos_x (heap w p)) (pos_y (heap w p))
                                        (onionSpeed (gamestate w))) w;
                        w = push r w
                    in Some (gamestate_update
                               (nextOnion_update (\<lambda>_. onionFrequency (gamestate w))) w)))
            else Some w)
      else Some w)"

definition new_knife :: "world \<Rightarrow> world" where
  "new_knife w =
     (let old = nextKnife (gamestate w);
          w = gamestate_update (nextKnife_update (\<lambda>n. n - 1)) w
      in if old = 0 then
           (let w = gamestate_update (nextKnife_update (\<lambda>_. knifeFrequency (gamestate w))) w;
                (rnd, w) = Math_random w;
                (r, w) = new (new_Knife STATE_GROUNDED rnd) w
            in push r w)
         else w)"

definition cool_down :: "world \<Rightarrow> world" where
  "cool_down w = gamestate_update (knifeThrowCooldown_update (\<lambda>n. max (n - 1) 0)) w"

definition running_tick :: "world \<Rightarrow> world option" where
  "running_tick w =
     (case new_onions (new_sidewalk (new_road_lines (new_broccoli (new_lamb w)))) of
        None \<Rightarrow> None
      | Some w1 \<Rightarrow>
          (case move Bg (cool_down (new_knife w1)) of
             None \<Rightarrow> None
           | Some (_, w2) \<Rightarrow>
               (case move Fg w2 of
                  None \<Rightarrow> None
                | Some (_, w3) \<Rightarrow> interact w3)))"

text \<open>\<^verbatim>\<open>prepareRender\<close> clears the canvas and sorts the foreground by \<^verbatim>\<open>y\<close>; the sort of an
  array is stable.\<close>

definition prepareRender :: "world \<Rightarrow> world" where
  "prepareRender w =
     (let w = w\<lparr>canvas := []\<rparr>
      in gamestate_update (sprites_update (sort_key (\<lambda>s. pos_y (heap w s)))) w)"

text \<open>\<^verbatim>\<open>render\<close>: the test \<^verbatim>\<open>image == null\<close> holds of \<^verbatim>\<open>null\<close> and of \<^verbatim>\<open>undefined\<close>.\<close>

fun render :: "ref list \<Rightarrow> world \<Rightarrow> world option" where
  "render [] w = Some w"
| "render (s # ss) w =
     (case nextFrame (heap w s) of
        None \<Rightarrow> None
      | Some (img, s') \<Rightarrow>
          (let w = w\<lparr>heap := (heap w)(s := s')\<rparr>
           in if img = Null \<or> img = Undefined then render ss w
              else render ss (w\<lparr>canvas := canvas w @ [(img, pos_x (heap w s), pos_y (heap w s))]\<rparr>)))"

text \<open>One run of \<^verbatim>\<open>gameloop\<close>, from the timer to the next \<^verbatim>\<open>setTimeout\<close>: the wait for
  the first sprites, the branch of the current phase (\<open>phase_hook\<close>), and the rendering.
  The status bar is drawn from the score, the knives and the high score; drawing it
  writes to the canvas only and is left out.\<close>

definition phase_hook :: "world \<Rightarrow> world option" where
  "phase_hook w =
     (case phase (gamestate w) of
        PHASE_ATTRACT \<Rightarrow> Some w
      | PHASE_GAME_OVER \<Rightarrow>
          (let old = gameOverMusicDelay (gamestate w);
               w = gamestate_update (gameOverMusicDelay_update (\<lambda>n. n - 1)) w
           in Some (if old = 0 then setMusic (Some ''gameovermusic'') w else w))
      | PHASE_RUNNING \<Rightarrow> running_tick w)"

definition gameloop :: "world \<Rightarrow> world option" where
  "gameloop w =
     (let w = (if \<not> loop_ready w
               then w\<lparr>loop_ready := list_all (\<lambda>s. ready (heap w s)) (sprites (gamestate w))\<rparr>
               else w)
      in if \<not> loop_ready w then Some w
         else
           (case phase_hook w of
              None \<Rightarrow> None
            | Some w1 \<Rightarrow>
                (let w2 = prepareRender w1
                 in case render (bgsprites (gamestate w2)) w2 of
                      None \<Rightarrow> None
                    | Some w3 \<Rightarrow> render (sprites (gamestate w3)) w3)))"

section \<open>Input and loading\<close>

definition startGameAndSound :: "world \<Rightarrow> world" where
  "startGameAndSound w =
     (if phase (gamestate w) = PHASE_ATTRACT then setGamePhase PHASE_RUNNING w
      else if phase (gamestate w) = PHASE_GAME_OVER then setGamePhase PHASE_ATTRACT w
      else w)"

definition set_input :: "(inputs \<Rightarrow> inputs) \<Rightarrow> world \<Rightarrow> world" where
  "set_input f w = gamestate_update (inputs_update f) w"

definition keydown :: "nat \<Rightarrow> world \<Rightarrow> world" where
  "keydown kc w =
     (let w = (if kc = 32 \<or> kc = 13 then startGameAndSound w else w)
      in if kc = 39 \<or> kc = 68 then set_input (\<lambda>i. i\<lparr>right := True\<rparr>) w
         else if kc = 37 \<or> kc = 65 then set_input (\<lambda>i. i\<lparr>left := True\<rparr>) w
         else if kc = 40 \<or> kc = 83 then set_input (\<lambda>i. i\<lparr>down := True\<rparr>) w
         else if kc = 38 \<or> kc = 87 then set_input (\<lambda>i. i\<lparr>up := True\<rparr>) w
         else if kc = 32 then set_input (\<lambda>i. i\<lparr>fire := True\<rparr>) w
         else w)"

definition keyup :: "nat \<Rightarrow> world \<Rightarrow> world" where
  "keyup kc w =
     (if kc = 39 \<or> kc = 68 then set_input (\<lambda>i. i\<lparr>right := False\<rparr>) w
      else if kc = 37 \<or> kc = 65 then set_input (\<lambda>i. i\<lparr>left := False\<rparr>) w
      else if kc = 40 \<or> kc = 83 then set_input (\<lambda>i. i\<lparr>down := False\<rparr>) w
      else if kc = 38 \<or> kc = 87 then set_input (\<lambda>i. i\<lparr>up := False\<rparr>) w
      else if kc = 32 then set_input (\<lambda>i. i\<lparr>fire := False\<rparr>) w
      else w)"

text \<open>Everything that runs code of the script once the page has started: the timer of
  \<^verbatim>\<open>gameloop\<close>, a key going down or up, a click on the canvas, and the two steps in which
  the sheet of a sprite becomes available.\<close>

datatype event =
  Timer | Keydown nat | Keyup nat | Click | Image_onload ref real real | Frames_resolved ref

fun handle :: "event \<Rightarrow> world \<Rightarrow> world option" where
  "handle Timer w = gameloop w"
| "handle (Keydown kc) w = Some (keydown kc w)"
| "handle (Keyup kc) w = Some (keyup kc w)"
| "handle Click w = Some (startGameAndSound w)"
| "handle (Image_onload r wd ht) w = Some (upd r (image_onload wd ht) w)"
| "handle (Frames_resolved r) w = Some (upd r frames_resolved w)"

text \<open>An event starts a new run when it makes \<^verbatim>\<open>startGameAndSound\<close> enter
  \<^verbatim>\<open>PHASE_RUNNING\<close>.\<close>

fun starts_run :: "event \<Rightarrow> world \<Rightarrow> bool" where
  "starts_run (Keydown kc) w = ((kc = 32 \<or> kc = 13) \<and> phase (gamestate w) = PHASE_ATTRACT)"
| "starts_run Click w = (phase (gamestate w) = PHASE_ATTRACT)"
| "starts_run _ w = False"

fun handle_all :: "event list \<Rightarrow> world \<Rightarrow> world option" where
  "handle_all [] w = Some w"
| "handle_all (e # es) w = (case handle e w of None \<Rightarrow> None | Some w' \<Rightarrow> handle_all es w')"

text \<open>The state in which \<^verbatim>\<open>game()\<close> leaves the page before the first \<^verbatim>\<open>gameloop\<close>: the
  script's initial values, \<^verbatim>\<open>hiScore\<close> parsed from the stored item if there is one, and
  \<^verbatim>\<open>setGamePhase(PHASE_ATTRACT)\<close>.\<close>

definition boot :: "int option option \<Rightarrow> (nat \<Rightarrow> real) \<Rightarrow> world" where
  "boot store rnds =
     setGamePhase PHASE_ATTRACT
       \<lparr>gamestate = INITIAL_GAMESTATE, heap = (\<lambda>_. new_Sidewalk), next_ref = 0,
        hiScore = (case store of Some (Some n) \<Rightarrow> n | _ \<Rightarrow> 0),
        localStorage = store, currentBgMusic = None, loop_ready = False, canvas = [],
        random_seq = rnds, random_pos = 0\<rparr>"


section \<open>Notions used in the statements and proofs\<close>

text \<open>A sequence of events stays within the run when none of them starts a new run in
  the state in which it arrives.\<close>

fun within_run :: "event list \<Rightarrow> world \<Rightarrow> bool" where
  "within_run [] w = True"
| "within_run (e # es) w =
     (\<not> starts_run e w \<and> (case handle e w of None \<Rightarrow> True | Some w' \<Rightarrow> within_run es w'))"

text \<open>The relation between two states that the proofs carry through every function:
  the score has not gone down and the knives have not gone below zero.\<close>

definition grows :: "world \<Rightarrow> world \<Rightarrow> bool" where
  "grows w w' \<longleftrightarrow>
     score (gamestate w) \<le> score (gamestate w') \<and>
     (0 \<le> knives (gamestate w) \<longrightarrow> 0 \<le> knives (gamestate w'))"


text \<open>The state after the three statements of \<^verbatim>\<open>Player.interact\<close> that kill a lamb:
  \<^verbatim>\<open>spendKnife(false)\<close>, \<^verbatim>\<open>other.die()\<close> and \<^verbatim>\<open>gamestate.score += 1000\<close>.\<close>

definition kill :: "ref \<Rightarrow> ref \<Rightarrow> world \<Rightarrow> world" where
  "kill p l w =
     gamestate_update (score_update (\<lambda>n. n + 1000))
       (upd l Lamb_die (snd (spendKnife False p w)))"

text \<open>What one call \<^verbatim>\<open>s.move()\<close> may change, seen from the array \<open>c\<close>: it appends new
  sprites at fresh addresses at most, and leaves every other allocated sprite as it
  was.\<close>

definition step_ok :: "coll \<Rightarrow> ref \<Rightarrow> world \<Rightarrow> world \<Rightarrow> bool" where
  "step_ok c s w w1 \<longleftrightarrow>
     (\<exists>added. the_array c w1 = the_array c w @ added \<and> (\<forall>r\<in>set added. next_ref w \<le> r))
     \<and> (\<forall>r. r \<noteq> s \<and> r < next_ref w \<longrightarrow> heap w1 r = heap w r)
     \<and> next_ref w \<le> next_ref w1"

text \<open>
  What the constructors establish and every method keeps, and what makes every call
  return: a sprite has a current animation and a step inside it; a player has a hitbox
  and the animations \<^verbatim>\<open>Player\<close> switches to; a lamb and a knife have the ones their
  methods switch to. A world is sane when all its sprites are good and, while the phase
  is \<^verbatim>\<open>PHASE_RUNNING\<close>, there is a player.
\<close>

definition has_animation :: "string \<Rightarrow> sprite \<Rightarrow> bool" where
  "has_animation nm s \<longleftrightarrow> (\<exists>an. map_of (animations s) nm = Some an \<and> an \<noteq> [])"

definition good :: "sprite \<Rightarrow> bool" where
  "good s \<longleftrightarrow>
     (\<exists>an. animation s = Some an \<and> animFrame s < length an)
     \<and> (cls s = Player \<longrightarrow>
          hitbox s \<noteq> None \<and> has_animation ''walking'' s \<and> has_animation ''wielding'' s
          \<and> has_animation ''dead'' s)
     \<and> (cls s = Lamb \<longrightarrow> has_animation ''dead'' s)
     \<and> (cls s = Knife \<longrightarrow> has_animation ''grounded'' s \<and> has_animation ''thrown'' s)"

definition sane :: "world \<Rightarrow> bool" where
  "sane w \<longleftrightarrow>
     (\<forall>r. good (heap w r))
     \<and> (phase (gamestate w) = PHASE_RUNNING \<longrightarrow> player (gamestate w) \<noteq> None)"

text \<open>The two effects one call \<^verbatim>\<open>s1.interact(s2)\<close> can have on the foreground array and on
  the classes of the sprites: none, or those of \<^verbatim>\<open>Player.die\<close>, which appends one or two
  overlays.\<close>

definition calm :: "world \<Rightarrow> world \<Rightarrow> bool" where
  "calm w w' \<longleftrightarrow> sprites (gamestate w') = sprites (gamestate w) \<and> (\<forall>r. cls (heap w' r) = cls (heap w r))"

definition loud :: "world \<Rightarrow> world \<Rightarrow> bool" where
  "loud w w' \<longleftrightarrow>
     (\<exists>added. sprites (gamestate w') = sprites (gamestate w) @ added \<and> length added \<le> 2
        \<and> (\<forall>r\<in>set added. cls (heap w' r) \<in> {GameOverMessage, NewHiScore}))
     \<and> (\<forall>r. cls (heap w' r) = cls (heap w r) \<or> cls (heap w' r) \<in> {GameOverMessage, NewHiScore})"

text \<open>The measure that decreases along the scan of \<^verbatim>\<open>for (var s2 of sprites)\<close>: the sprites
  still to visit, those that can make the player die counted three times.\<close>

definition weight :: "world \<Rightarrow> ref \<Rightarrow> nat" where
  "weight w r = (if cls (heap w r) \<in> {Broccoli, Onion, Knife} then 3 else 1)"

definition scan_size :: "nat \<Rightarrow> world \<Rightarrow> nat" where
  "scan_size j w = sum_list (map (weight w) (drop j (sprites (gamestate w))))"

text \<open>A step that leaves a sane world in the phase it was in.\<close>

definition same_phase :: "world \<Rightarrow> world \<Rightarrow> bool" where
  "same_phase w w' \<longleftrightarrow> sane w' \<and> phase (gamestate w') = phase (gamestate w)"

section \<open>Worlds and sprites used as examples\<close>

text \<open>A player whose sheet (32 by 256 pixels, eight frames) has loaded.\<close>

definition loaded_Player :: sprite where
  "loaded_Player = frames_resolved (image_onload 32 256 new_Player)"

text \<open>The page after \<^verbatim>\<open>game()\<close>, with an empty \<^verbatim>\<open>localStorage\<close> and a random source that
  always gives one half; and the run that a click starts there.\<close>

definition world0 :: world where
  "world0 = boot (Some None) (\<lambda>_. 1 / 2)"

definition run0 :: world where
  "run0 = setGamePhase PHASE_RUNNING world0"

text \<open>The same run once the sheet of the player (the sprite at address 3) has loaded and
  one tick before the next knife may be thrown.\<close>

definition armed0 :: world where
  "armed0 =
     gamestate_update (knifeThrowCooldown_update (\<lambda>_. 1))
       (upd 3 (frames_resolved \<circ> image_onload 32 256) run0)"

text \<open>That run with a score of 1000, above the high score 0, and past the wait for the
  first sprites.\<close>

definition scored0 :: world where
  "scored0 = (gamestate_update (score_update (\<lambda>_. 1000)) armed0)\<lparr>loop_ready := True\<rparr>"

text \<open>The armed run with a loaded lamb, or with a broccoli, placed on the player.\<close>

definition lamb_here :: sprite where
  "lamb_here = (image_onload 32 160 (new_Lamb (1 / 2)))\<lparr>pos_x := 130, pos_y := 250\<rparr>"

definition duel0 :: world where
  "duel0 = (let (r, w) = new lamb_here armed0 in push r w)"



text \<open>The armed run with a loaded lamb about to leave the screen on the left.\<close>

definition exit0 :: world where
  "exit0 = (let (r, w) = new (lamb_here\<lparr>pos_x := - 31\<rparr>) armed0 in push r w)"

section \<open>The animation clock\<close>

lemma nextFrame_ready_same:
  "nextFrame s = Some (img, s') \<Longrightarrow> ready s' = ready s"
  by (auto simp: nextFrame_def Let_def split: if_splits option.splits)

lemma nextFrame_stays:
  assumes "ready s" "animation s = Some an" "animFrame s < length an"
    "animFrameStep s < snd (an ! animFrame s)"
  shows "\<exists>img. nextFrame s = Some (img, s\<lparr>animFrameStep := animFrameStep s + 1\<rparr>)"
    and "\<not> leaves_step s"
  using assms by (auto simp: nextFrame_def leaves_step_def Let_def)

lemma nextFrame_leaves:
  assumes "ready s" "animation s = Some an" "animFrame s < length an"
    "animFrameStep s \<ge> snd (an ! animFrame s)"
  shows "\<exists>img. nextFrame s =
           Some (img, s\<lparr>animFrameStep := 1,
                        animFrame := (if animFrame s + 1 \<ge> length an then 0 else animFrame s + 1)\<rparr>)"
    and "leaves_step s"
  using assms by (auto simp: nextFrame_def leaves_step_def Let_def)

lemma nextFrame_times_stays:
  assumes "ready s" "animation s = Some an" "animFrame s < length an"
    "animFrameStep s + k \<le> snd (an ! animFrame s)"
  shows "nextFrame_times k s = Some (0, s\<lparr>animFrameStep := animFrameStep s + k\<rparr>)"
  using assms
proof (induction k arbitrary: s)
  case 0
  then show ?case by simp
next
  case (Suc k)
  have lt: "animFrameStep s < snd (an ! animFrame s)" using Suc.prems(4) by simp
  obtain img where nf: "nextFrame s = Some (img, s\<lparr>animFrameStep := animFrameStep s + 1\<rparr>)"
    using nextFrame_stays(1)[OF Suc.prems(1-3) lt] by blast
  have nl: "\<not> leaves_step s" using nextFrame_stays(2)[OF Suc.prems(1-3) lt] .
  let ?s1 = "s\<lparr>animFrameStep := animFrameStep s + 1\<rparr>"
  have "nextFrame_times k ?s1 = Some (0, ?s1\<lparr>animFrameStep := animFrameStep ?s1 + k\<rparr>)"
    by (rule Suc.IH) (use Suc.prems in simp_all)
  then show ?case using nf nl by simp
qed

lemma nextFrame_times_add:
  "nextFrame_times (a + b) s =
     (case nextFrame_times a s of
        None \<Rightarrow> None
      | Some (k, s1) \<Rightarrow>
          (case nextFrame_times b s1 of None \<Rightarrow> None | Some (k', s2) \<Rightarrow> Some (k + k', s2)))"
  by (induction a arbitrary: s) (auto split: option.splits)

text \<open>
  C5, as the specification states it: a ready sprite whose current step lasts \<open>N\<close> ticks
  leaves the step exactly once in \<open>N\<close> calls of \<^verbatim>\<open>nextFrame\<close>. It fails for the clock that
  \<^verbatim>\<open>setAnimation\<close> leaves: the loaded player starts in the first step of
  \<^verbatim>\<open>wielding\<close>, which lasts 5 ticks; after 5 calls the step has not changed and the branch
  that changes it has not been taken.
\<close>

theorem nextFrame_N_calls_counterexample:
  "ready loaded_Player \<and> animation loaded_Player = Some [(4, 5), (5, 5), (6, 5), (7, 5)]
   \<and> animFrame loaded_Player = 0 \<and> animFrameStep loaded_Player = 0
   \<and> nextFrame_times 5 loaded_Player = Some (0, loaded_Player\<lparr>animFrameStep := 5\<rparr>)"
  by (simp add: loaded_Player_def frames_resolved_def image_onload_def new_Player_def Sprite_def
      setAnimation_def Let_def nextFrame_def leaves_step_def eval_nat_numeral)

text \<open>
  C5, amended: every step is shown for as many calls as its duration says. From the
  counter 0 that \<^verbatim>\<open>setAnimation\<close> leaves, \<open>N\<close> calls keep the step and call \<open>N + 1\<close> is the
  one that leaves it. From a counter between 1 and \<open>N\<close> (1 is what a change of step
  leaves) that does not exceed the duration of the following step, \<open>N\<close> calls leave the
  step exactly once and change nothing but the step index. The following step is the
  next index, and index 0 after the last step.
\<close>

theorem nextFrame_step_duration:
  assumes "ready s" and "animation s = Some an" and "animFrame s < length an"
    and "N = snd (an ! animFrame s)"
    and "nxt = (if animFrame s + 1 \<ge> length an then 0 else animFrame s + 1)"
  shows "(animFrameStep s = 0 \<longrightarrow>
            nextFrame_times N s = Some (0, s\<lparr>animFrameStep := N\<rparr>) \<and>
            nextFrame_times (N + 1) s = Some (1, s\<lparr>animFrameStep := 1, animFrame := nxt\<rparr>))
       \<and> (1 \<le> animFrameStep s \<and> animFrameStep s \<le> N \<and> animFrameStep s \<le> snd (an ! nxt) \<longrightarrow>
            nextFrame_times N s = Some (1, s\<lparr>animFrame := nxt\<rparr>))"
proof (intro conjI impI)
  assume z: "animFrameStep s = 0"
  show a: "nextFrame_times N s = Some (0, s\<lparr>animFrameStep := N\<rparr>)"
    using nextFrame_times_stays[OF assms(1-3), of N] assms(4) z by simp
  let ?s1 = "s\<lparr>animFrameStep := N\<rparr>"
  obtain img where
    "nextFrame ?s1 =
       Some (img, ?s1\<lparr>animFrameStep := 1,
                      animFrame := (if animFrame ?s1 + 1 \<ge> length an then 0 else animFrame ?s1 + 1)\<rparr>)"
    and "leaves_step ?s1"
    using nextFrame_leaves[of ?s1 an] assms by auto
  then have "nextFrame_times 1 ?s1 = Some (1, s\<lparr>animFrameStep := 1, animFrame := nxt\<rparr>)"
    using assms(5) by simp
  then show "nextFrame_times (N + 1) s = Some (1, s\<lparr>animFrameStep := 1, animFrame := nxt\<rparr>)"
    using a by (simp only: nextFrame_times_add) simp
next
  assume h: "1 \<le> animFrameStep s \<and> animFrameStep s \<le> N \<and> animFrameStep s \<le> snd (an ! nxt)"
  define c where "c = animFrameStep s"
  have N: "N = (N - c) + (1 + (c - 1))" using h c_def by simp
  have a: "nextFrame_times (N - c) s = Some (0, s\<lparr>animFrameStep := N\<rparr>)"
    using nextFrame_times_stays[OF assms(1-3), of "N - c"] assms(4) h c_def by simp
  let ?s1 = "s\<lparr>animFrameStep := N\<rparr>"
  let ?s2 = "s\<lparr>animFrameStep := 1, animFrame := nxt\<rparr>"
  obtain img where
    "nextFrame ?s1 =
       Some (img, ?s1\<lparr>animFrameStep := 1,
                      animFrame := (if animFrame ?s1 + 1 \<ge> length an then 0 else animFrame ?s1 + 1)\<rparr>)"
    and "leaves_step ?s1"
    using nextFrame_leaves[of ?s1 an] assms by auto
  then have b: "nextFrame_times 1 ?s1 = Some (1, ?s2)"
    using assms(5) by simp
  have nl: "nxt < length an" using assms(3,5) by auto
  have "nextFrame_times (c - 1) ?s2 = Some (0, ?s2\<lparr>animFrameStep := animFrameStep ?s2 + (c - 1)\<rparr>)"
    by (rule nextFrame_times_stays[where an = an]) (use assms h c_def nl in auto)
  then have d: "nextFrame_times (c - 1) ?s2 = Some (0, s\<lparr>animFrame := nxt\<rparr>)"
    using h c_def by simp
  have "nextFrame_times ((N - c) + (1 + (c - 1))) s = Some (1, s\<lparr>animFrame := nxt\<rparr>)"
    using a b d by (simp only: nextFrame_times_add) simp
  then show "nextFrame_times N s = Some (1, s\<lparr>animFrame := nxt\<rparr>)" using N by simp
qed

theorem nextFrame_step_duration_witness:
  "nextFrame_times 5 loaded_Player = Some (0, loaded_Player\<lparr>animFrameStep := 5\<rparr>)
   \<and> nextFrame_times 6 loaded_Player = Some (1, loaded_Player\<lparr>animFrameStep := 1, animFrame := 1\<rparr>)
   \<and> nextFrame_times 5 (loaded_Player\<lparr>animFrameStep := 1, animFrame := 3\<rparr>)
       = Some (1, loaded_Player\<lparr>animFrameStep := 1, animFrame := 0\<rparr>)"
  using nextFrame_step_duration[of loaded_Player "[(4, 5), (5, 5), (6, 5), (7, 5)]" 5 1]
    nextFrame_step_duration[of "loaded_Player\<lparr>animFrameStep := 1, animFrame := 3\<rparr>"
      "[(4, 5), (5, 5), (6, 5), (7, 5)]" 5 0]
  by (simp add: loaded_Player_def frames_resolved_def image_onload_def new_Player_def Sprite_def
      setAnimation_def Let_def)

section \<open>Hit tests\<close>

text \<open>
  C7, as the specification states it: \<^verbatim>\<open>intersects\<close> returns \<^verbatim>\<open>false\<close> when a side has no
  hitbox. A lamb has none until its image has loaded, and the call returns \<^verbatim>\<open>undefined\<close>,
  which is not the boolean \<^verbatim>\<open>false\<close>.
\<close>

theorem intersects_no_hitbox_counterexample:
  "hitbox (new_Lamb 0) = None \<and> intersects new_Player (new_Lamb 0) \<noteq> JBool False"
  by (simp add: intersects_def new_Lamb_def new_Player_def Sprite_def setAnimation_def Let_def)

text \<open>
  C7, amended: when a side has no hitbox, \<^verbatim>\<open>intersects\<close> returns \<^verbatim>\<open>undefined\<close> wherever the
  two sprites are; no error is raised, and the value is falsy, so every caller's
  \<^verbatim>\<open>if (this.intersects(other))\<close> takes the branch for no overlap.
\<close>

theorem intersects_no_hitbox:
  "hitbox a = None \<or> hitbox b = None \<Longrightarrow>
     intersects a b = JUndefined \<and> \<not> truthy (intersects a b)"
  by (auto simp: intersects_def split: option.splits)

theorem intersects_no_hitbox_witness:
  "(hitbox new_Player = None \<or> hitbox (new_Lamb 0) = None)
   \<and> intersects new_Player (new_Lamb 0) = JUndefined
   \<and> \<not> truthy (intersects new_Player (new_Lamb 0))"
  using intersects_no_hitbox[of new_Player "new_Lamb 0"]
  by (simp add: new_Lamb_def Sprite_def setAnimation_def Let_def)

section \<open>Sprites that are not ready\<close>

text \<open>
  C8: a sprite whose frames have not been cut yet gives \<^verbatim>\<open>null\<close> to \<^verbatim>\<open>nextFrame\<close>, which
  returns normally and leaves the sprite, and so its animation, step index and counter,
  as they were; and rendering an array that holds the sprite is rendering the array
  without it: nothing is drawn for it and no error comes from it.
\<close>

theorem not_ready_no_frame:
  assumes "\<not> ready (heap w r)"
  shows "nextFrame (heap w r) = Some (Null, heap w r)
         \<and> render (xs @ r # ys) w = render (xs @ ys) w"
proof
  show "nextFrame (heap w r) = Some (Null, heap w r)"
    using assms by (simp add: nextFrame_def)
  show "render (xs @ r # ys) w = render (xs @ ys) w"
    using assms
  proof (induction xs arbitrary: w)
    case Nil
    then show ?case by (simp add: nextFrame_def)
  next
    case (Cons x xs)
    show ?case
    proof (cases "nextFrame (heap w x)")
      case None
      then show ?thesis by simp
    next
      case (Some p)
      obtain img s' where p: "p = (img, s')" by (cases p)
      have rd: "ready s' = ready (heap w x)"
        using Some p nextFrame_ready_same by blast
      let ?w1 = "w\<lparr>heap := (heap w)(x := s')\<rparr>"
      have nr: "\<not> ready (heap ?w1 r)"
        using Cons.prems rd by auto
      have nr2: "\<not> ready (heap (?w1\<lparr>canvas := canvas ?w1 @
                   [(img, pos_x (heap ?w1 x), pos_y (heap ?w1 x))]\<rparr>) r)"
        using nr by simp
      show ?thesis
        using Some p Cons.IH[OF nr] Cons.IH[OF nr2] by (simp add: Let_def)
    qed
  qed
qed

theorem not_ready_no_frame_witness:
  "\<not> ready (heap world0 0)
   \<and> nextFrame (heap world0 0) = Some (Null, heap world0 0)
   \<and> render ([1] @ 0 # [2]) world0 = render ([1] @ [2]) world0"
proof -
  have a: "\<not> ready (heap world0 0)"
    by code_simp
  show ?thesis
    using not_ready_no_frame[OF a, of "[1]" "[2]"] a by simp
qed

section \<open>Starting a run\<close>

text \<open>
  C3: whatever the state before, \<^verbatim>\<open>setGamePhase(PHASE_RUNNING)\<close> leaves the initial game
  state with the phase set, one new player as the only foreground sprite and as
  \<^verbatim>\<open>gamestate.player\<close>: score 0, 3 knives, a frame delay of 10 ms (the other phases set
  100). No field of the game state depends on the game state before.
\<close>

theorem setGamePhase_RUNNING_fresh:
  "gamestate (setGamePhase PHASE_RUNNING w) =
     INITIAL_GAMESTATE\<lparr>phase := PHASE_RUNNING, player := Some (next_ref w),
                       sprites := [next_ref w]\<rparr>
   \<and> heap (setGamePhase PHASE_RUNNING w) (next_ref w) = new_Player
   \<and> score (gamestate (setGamePhase PHASE_RUNNING w)) = 0
   \<and> knives (gamestate (setGamePhase PHASE_RUNNING w)) = 3
   \<and> frameDelay (gamestate (setGamePhase PHASE_RUNNING w)) = 10
   \<and> length (filter (\<lambda>r. cls (heap (setGamePhase PHASE_RUNNING w) r) = Player)
        (sprites (gamestate (setGamePhase PHASE_RUNNING w)))) = 1"
  by (simp add: setGamePhase.simps Let_def setMusic_def new_def push_def INITIAL_GAMESTATE_def
      playSample_def new_Player_def Sprite_def setAnimation_def)


section \<open>Score and knives\<close>

text \<open>Every function of the script is followed from the leaves to the event handlers:
  the ones that do not write the score or the knives, then the ones that do.\<close>

lemma grows_refl [simp]: "grows w w"
  by (simp add: grows_def)

lemma grows_trans: "grows a b \<Longrightarrow> grows b c \<Longrightarrow> grows a c"
  by (auto simp: grows_def)

lemma grows_same: "gamestate w' = gamestate w \<Longrightarrow> grows w w'"
  by (simp add: grows_def)

lemma setMusic_eq: "setMusic m w = w\<lparr>currentBgMusic := m\<rparr>"
  by (simp add: setMusic_def playSample_def split: option.splits)

lemma silence_fold_fields [simp]:
  "gamestate (foldl (\<lambda>v s. upd s silence v) w xs) = gamestate w"
  "next_ref (foldl (\<lambda>v s. upd s silence v) w xs) = next_ref w"
  "hiScore (foldl (\<lambda>v s. upd s silence v) w xs) = hiScore w"
  "localStorage (foldl (\<lambda>v s. upd s silence v) w xs) = localStorage w"
  "currentBgMusic (foldl (\<lambda>v s. upd s silence v) w xs) = currentBgMusic w"
  "loop_ready (foldl (\<lambda>v s. upd s silence v) w xs) = loop_ready w"
  "canvas (foldl (\<lambda>v s. upd s silence v) w xs) = canvas w"
  "random_seq (foldl (\<lambda>v s. upd s silence v) w xs) = random_seq w"
  "random_pos (foldl (\<lambda>v s. upd s silence v) w xs) = random_pos w"
  by (induction xs arbitrary: w) (simp_all add: upd_def)

lemma silenceAll_fields [simp]:
  "gamestate (silenceAllSprites w) = gamestate w"
  "next_ref (silenceAllSprites w) = next_ref w"
  "hiScore (silenceAllSprites w) = hiScore w"
  "localStorage (silenceAllSprites w) = localStorage w"
  "currentBgMusic (silenceAllSprites w) = currentBgMusic w"
  "loop_ready (silenceAllSprites w) = loop_ready w"
  "canvas (silenceAllSprites w) = canvas w"
  "random_seq (silenceAllSprites w) = random_seq w"
  "random_pos (silenceAllSprites w) = random_pos w"
  by (simp_all add: silenceAllSprites_def Let_def)

lemma gamestate_GAME_OVER:
  "gamestate (setGamePhase PHASE_GAME_OVER w) =
     (gamestate w)\<lparr>phase := PHASE_GAME_OVER, frameDelay := 100,
        sprites := sprites (gamestate w) @
          (if score (gamestate w) > hiScore w then [next_ref w, Suc (next_ref w)] else [next_ref w])\<rparr>"
  by (simp add: setGamePhase.simps Let_def split_def push_def new_def setMusic_eq
      split: option.splits)

lemma gamestate_ATTRACT:
  "gamestate (setGamePhase PHASE_ATTRACT w) =
     (gamestate w)\<lparr>phase := PHASE_ATTRACT, frameDelay := 100,
        sprites := [next_ref w, Suc (next_ref w), Suc (Suc (next_ref w))]\<rparr>"
  by (simp add: setGamePhase.simps Let_def split_def push_def new_def setMusic_eq)

lemma gamestate_Player_die:
  "gamestate (Player_die r w) =
     (gamestate w)\<lparr>phase := PHASE_GAME_OVER, frameDelay := 100,
        sprites := sprites (gamestate w) @
          (if score (gamestate w) > hiScore w then [next_ref w, Suc (next_ref w)] else [next_ref w])\<rparr>"
  by (simp add: Player_die_def gamestate_GAME_OVER upd_def)

lemma spendKnife_grows: "grows w (snd (spendKnife b r w))"
  by (auto simp: spendKnife_def grows_def Let_def upd_def)

lemma Player_interact_grows: "grows w (Player_interact this other w)"
  unfolding Player_interact_def Let_def
  by (auto simp: grows_def split_def spendKnife_def Let_def gamestate_Player_die upd_def)

lemma Knife_interact_grows: "grows w (Knife_interact this other w)"
  unfolding Knife_interact_def Let_def
  by (auto simp: grows_def split_def Let_def upd_def Math_random_def)

lemma interact_method_grows: "grows w (interact_method this other w)"
  by (auto simp: interact_method_def Player_interact_grows Knife_interact_grows split: cls.splits)


lemma interact_scan_grows: "interact_scan s1 j w = Some w' \<Longrightarrow> grows w w'"
proof (rule interact_scan.raw_induct[where P = "\<lambda>s1 j w w'. grows w w'"])
  show "interact_scan s1 j w = Some w'" if "interact_scan s1 j w = Some w'" using that .
next
  fix scan :: "ref \<Rightarrow> nat \<Rightarrow> world \<Rightarrow> world option" and s1 j w w'
  assume ih: "\<And>s1 j w w'. scan s1 j w = Some w' \<Longrightarrow> grows w w'"
    and st: "(if j < length (sprites (gamestate w))
              then scan s1 (Suc j) (interact_method s1 (sprites (gamestate w) ! j) w)
              else Some w) = Some w'"
  show "grows w w'"
  proof (cases "j < length (sprites (gamestate w))")
    case True
    then have "scan s1 (Suc j) (interact_method s1 (sprites (gamestate w) ! j) w) = Some w'"
      using st by simp
    from ih[OF this] show ?thesis
      using grows_trans[OF interact_method_grows] by blast
  next
    case False
    then show ?thesis using st by simp
  qed
qed

lemma gamestate_finished: "gamestate (snd (finished s w)) = gamestate w"
  by (simp add: finished_def Let_def upd_def)

lemma grows_splice: "grows w (splice c i w)"
  by (cases c) (simp_all add: grows_def)

lemma grows_prune: "grows w1 (let (f, w2) = finished s w1 in if f then splice c i w2 else w2)"
  using grows_splice[of "snd (finished s w1)" c i] gamestate_finished[of s w1]
  by (auto simp: split_def Let_def grows_def)

lemma interact_loop_grows: "interact_loop i w = Some w' \<Longrightarrow> grows w w'"
proof (induction i arbitrary: w)
  case 0
  then show ?case by simp
next
  case (Suc i)
  from Suc.prems obtain w1 where
    sc: "interact_scan (sprites (gamestate w) ! i) 0 w = Some w1"
    and rest: "interact_loop i (let (f, w2) = finished (sprites (gamestate w) ! i) w1 in if f then splice Fg i w2 else w2) = Some w'"
    by (auto simp: Let_def split_def split: if_splits option.splits)
  show ?case
    using grows_trans[OF interact_scan_grows[OF sc] grows_trans[OF grows_prune Suc.IH[OF rest]]] .
qed


lemma Player_steer_fields [simp]:
  "gamestate (Player_steer this w) = gamestate w"
  "next_ref (Player_steer this w) = next_ref w"
  by (simp_all add: Player_steer_def upd_def Let_def)

lemma Player_fire_grows: "Player_fire this w = Some w' \<Longrightarrow> grows w w'"
  unfolding Player_fire_def
  by (auto simp: grows_def split_def spendKnife_def Let_def upd_def push_def new_def Math_random_def
      split: if_splits option.splits)

lemma Player_move_grows: "Player_move this w = Some w' \<Longrightarrow> grows w w'"
proof -
  assume a: "Player_move this w = Some w'"
  then obtain w1 where f: "Player_fire this (Player_steer this w) = Some w1"
    and e: "w' = upd this ensureFullyOnScreen w1"
    by (auto simp: Player_move_def split: option.splits)
  have "grows (Player_steer this w) w1" using Player_fire_grows[OF f] .
  then show ?thesis using e by (simp add: grows_def upd_def)
qed

lemma move_method_grows: "move_method this w = Some w' \<Longrightarrow> grows w w'"
proof (cases "cls (heap w this) = Player")
  case True
  assume "move_method this w = Some w'"
  then show ?thesis using True by (simp add: move_method_def Player_move_grows)
next
  case False
  assume "move_method this w = Some w'"
  then have "gamestate w' = gamestate w"
    using False
    by (auto simp: move_method_def Lamb_move_def road_move_def Onion_move_def
        Knife_move_def upd_def split: cls.splits option.splits knife_state.splits)
  then show ?thesis by (rule grows_same)
qed

lemma move_loop_grows: "move_loop c i w calls = Some (calls', w') \<Longrightarrow> grows w w'"
proof (induction i arbitrary: w calls)
  case 0
  then show ?case by simp
next
  case (Suc i)
  from Suc.prems obtain w1 where
    mv: "move_method (the_array c w ! i) w = Some w1"
    and rest: "move_loop c i (let (f, w2) = finished (the_array c w ! i) w1 in if f then splice c i w2 else w2)
                 (calls @ [the_array c w ! i]) = Some (calls', w')"
    by (auto simp: Let_def split_def split: if_splits option.splits)
  show ?case
    using grows_trans[OF move_method_grows[OF mv] grows_trans[OF grows_prune Suc.IH[OF rest]]] .
qed

lemma move_grows: "move c w = Some (calls, w') \<Longrightarrow> grows w w'"
  by (simp add: move_def move_loop_grows)

lemma interact_grows: "interact w = Some w' \<Longrightarrow> grows w w'"
  by (simp add: interact_def interact_loop_grows)

lemma gamestate_render: "render ss w = Some w' \<Longrightarrow> gamestate w' = gamestate w"
  by (induction ss arbitrary: w) (auto simp: Let_def split: option.splits if_splits)

lemma grows_prepareRender: "grows w (prepareRender w)"
  by (simp add: prepareRender_def grows_def Let_def)

lemma roadlines_gamestate:
  "score (gamestate (foldl (\<lambda>v y. let (r, v) = new (new_RoadLine y) v in push_bg r v) w ys)) = score (gamestate w)
   \<and> knives (gamestate (foldl (\<lambda>v y. let (r, v) = new (new_RoadLine y) v in push_bg r v) w ys)) = knives (gamestate w)"
  by (induction ys arbitrary: w) (simp_all add: new_def push_bg_def)

lemma spawn_Lamb_sk:
  "score (gamestate (spawn_Lamb w)) = score (gamestate w)" "knives (gamestate (spawn_Lamb w)) = knives (gamestate w)"
  by (simp_all add: spawn_Lamb_def Math_random_def new_def push_def Let_def)


lemma new_lamb_sk:
  "score (gamestate (new_lamb w)) = score (gamestate w) \<and> knives (gamestate (new_lamb w)) = knives (gamestate w)"
  using gamestate_finished
  by (auto simp add: new_lamb_def spawn_Lamb_sk split_def Let_def split: option.splits)

lemma new_broccoli_sk:
  "score (gamestate (new_broccoli w)) = score (gamestate w) \<and> knives (gamestate (new_broccoli w)) = knives (gamestate w)"
  by (simp add: new_broccoli_def Let_def split_def Math_random_def new_def push_def)

lemma new_road_lines_sk:
  "score (gamestate (new_road_lines w)) = score (gamestate w) \<and> knives (gamestate (new_road_lines w)) = knives (gamestate w)"
  by (simp add: new_road_lines_def Let_def roadlines_gamestate[unfolded Let_def])

lemma new_sidewalk_sk:
  "score (gamestate (new_sidewalk w)) = score (gamestate w) \<and> knives (gamestate (new_sidewalk w)) = knives (gamestate w)"
  by (simp add: new_sidewalk_def Let_def split_def new_def push_bg_def)

lemma new_knife_sk:
  "score (gamestate (new_knife w)) = score (gamestate w) \<and> knives (gamestate (new_knife w)) = knives (gamestate w)"
  by (simp add: new_knife_def Let_def split_def Math_random_def new_def push_def)

lemma cool_down_sk:
  "score (gamestate (cool_down w)) = score (gamestate w) \<and> knives (gamestate (cool_down w)) = knives (gamestate w)"
  by (simp add: cool_down_def)

lemmas spawn_rules_sk = new_lamb_sk new_broccoli_sk new_road_lines_sk new_sidewalk_sk new_knife_sk cool_down_sk

lemma new_onions_sk:
  "new_onions w = Some w' \<Longrightarrow> score (gamestate w') = score (gamestate w) \<and> knives (gamestate w') = knives (gamestate w)"
  by (auto simp: new_onions_def Let_def split_def new_def push_def split: if_splits option.splits)

lemma running_tick_grows: "running_tick w = Some w' \<Longrightarrow> grows w w'"
proof -
  assume a: "running_tick w = Some w'"
  let ?w0 = "new_sidewalk (new_road_lines (new_broccoli (new_lamb w)))"
  from a obtain w1 c2 w2 c3 w3 where
    on: "new_onions ?w0 = Some w1"
    and m1: "move Bg (cool_down (new_knife w1)) = Some (c2, w2)"
    and m2: "move Fg w2 = Some (c3, w3)"
    and it: "interact w3 = Some w'"
    by (auto simp: running_tick_def split: option.splits)
  have g0: "grows w ?w0" by (simp add: grows_def spawn_rules_sk)
  have g1: "grows ?w0 w1" using new_onions_sk[OF on] by (simp add: grows_def)
  have g2: "grows w1 (cool_down (new_knife w1))" by (simp add: grows_def spawn_rules_sk)
  show ?thesis
    using g0 g1 g2 move_grows[OF m1] move_grows[OF m2] interact_grows[OF it]
    by (meson grows_trans)
qed

lemma phase_hook_grows: "phase_hook w = Some w' \<Longrightarrow> grows w w'"
proof (cases "phase (gamestate w)")
  case PHASE_RUNNING
  assume "phase_hook w = Some w'"
  then show ?thesis using PHASE_RUNNING by (simp add: phase_hook_def running_tick_grows)
qed (auto simp: phase_hook_def Let_def setMusic_eq grows_def split: if_splits)

lemma gameloop_grows: "gameloop w = Some w' \<Longrightarrow> grows w w'"
proof -
  assume a: "gameloop w = Some w'"
  let ?w0 = "if \<not> loop_ready w
               then w\<lparr>loop_ready := list_all (\<lambda>s. ready (heap w s)) (sprites (gamestate w))\<rparr>
               else w"
  have g0: "grows w ?w0" by (simp add: grows_def)
  show ?thesis
  proof (cases "loop_ready ?w0")
    case False
    then have "w' = ?w0" using a by (simp add: gameloop_def Let_def split: if_splits)
    then show ?thesis using g0 by simp
  next
    case True
    then obtain w1 w3 where h: "phase_hook ?w0 = Some w1"
      and r1: "render (bgsprites (gamestate (prepareRender w1))) (prepareRender w1) = Some w3"
      and r2: "render (sprites (gamestate w3)) w3 = Some w'"
      using a by (auto simp: gameloop_def Let_def split: if_splits option.splits)
    have "grows (prepareRender w1) w3" using gamestate_render[OF r1] by (simp add: grows_def)
    moreover have "grows w3 w'" using gamestate_render[OF r2] by (simp add: grows_def)
    ultimately show ?thesis
      using g0 phase_hook_grows[OF h] grows_prepareRender[of w1] by (meson grows_trans)
  qed
qed

lemma startGameAndSound_grows:
  "phase (gamestate w) \<noteq> PHASE_ATTRACT \<Longrightarrow> grows w (startGameAndSound w)"
  by (simp add: startGameAndSound_def grows_def gamestate_ATTRACT)

lemma set_input_sk [simp]: "score (gamestate (set_input f w)) = score (gamestate w)"
  "knives (gamestate (set_input f w)) = knives (gamestate w)"
  by (simp_all add: set_input_def)

lemma keydown_grows: "\<not> starts_run (Keydown kc) w \<Longrightarrow> grows w (keydown kc w)"
proof -
  assume a: "\<not> starts_run (Keydown kc) w"
  let ?w1 = "if kc = 32 \<or> kc = 13 then startGameAndSound w else w"
  have "grows w ?w1" using a startGameAndSound_grows by auto
  moreover have "grows ?w1 (keydown kc w)"
    by (simp add: keydown_def Let_def grows_def)
  ultimately show ?thesis by (rule grows_trans)
qed

lemma handle_grows:
  assumes "handle e w = Some w'" "\<not> starts_run e w"
  shows "grows w w'"
proof (cases e)
  case Timer
  then show ?thesis using assms gameloop_grows by simp
next
  case (Keydown kc)
  then show ?thesis using assms keydown_grows by auto
next
  case (Keyup kc)
  then show ?thesis using assms by (auto simp: keyup_def grows_def)
next
  case Click
  then show ?thesis using assms startGameAndSound_grows by auto
next
  case (Image_onload r wd ht)
  then show ?thesis using assms by (auto simp: grows_def upd_def)
next
  case (Frames_resolved r)
  then show ?thesis using assms by (auto simp: grows_def upd_def)
qed

lemma handle_starts_run:
  assumes "handle e w = Some w'" "starts_run e w"
  shows "score (gamestate w') = 0 \<and> knives (gamestate w') = 3"
proof -
  have s: "score (gamestate (setGamePhase PHASE_RUNNING w)) = 0 \<and> knives (gamestate (setGamePhase PHASE_RUNNING w)) = 3"
    by (simp add: setGamePhase.simps Let_def setMusic_def new_def push_def INITIAL_GAMESTATE_def
        split: option.splits)
  show ?thesis
  proof (cases e)
    case (Keydown kc)
    then have "w' = keydown kc w" "phase (gamestate w) = PHASE_ATTRACT" "kc = 32 \<or> kc = 13"
      using assms by auto
    then show ?thesis using s
      by (auto simp add: keydown_def startGameAndSound_def Let_def)
  next
    case Click
    then show ?thesis using assms s by (auto simp: startGameAndSound_def)
  qed (use assms in auto)
qed

lemma handle_all_grows:
  "within_run es w \<Longrightarrow> handle_all es w = Some w' \<Longrightarrow> grows w w'"
proof (induction es arbitrary: w)
  case Nil
  then show ?case by simp
next
  case (Cons e es)
  from Cons.prems obtain w1 where h: "handle e w = Some w1" and r: "handle_all es w1 = Some w'"
    by (auto split: option.splits)
  have "within_run es w1" "\<not> starts_run e w" using Cons.prems(1) h by auto
  then show ?case using handle_grows[OF h] Cons.IH[OF _ r] grows_trans by blast
qed


lemma within_run_append:
  "within_run (es1 @ es2) w \<Longrightarrow> handle_all es1 w = Some w1 \<Longrightarrow>
     within_run es1 w \<and> within_run es2 w1"
  by (induction es1 arbitrary: w) (auto split: option.splits)

lemma handle_knives:
  assumes "handle e w = Some w'" and "0 \<le> knives (gamestate w)"
  shows "0 \<le> knives (gamestate w')"
proof (cases "starts_run e w")
  case True
  then show ?thesis using handle_starts_run[OF assms(1)] by simp
next
  case False
  then show ?thesis using handle_grows[OF assms(1)] assms(2) by (simp add: grows_def)
qed

section \<open>The end of a run\<close>

lemma silence_eq: "silence s = s\<lparr>sound := None\<rparr>"
  by (cases "sound s") (simp_all add: silence_def)

lemma heap_silence_fold:
  "heap (foldl (\<lambda>v s. upd s silence v) w xs) r = (if r \<in> set xs then silence (heap w r) else heap w r)"
  by (induction xs arbitrary: w) (auto simp: upd_def silence_eq)

lemma heap_silenceAll:
  "heap (silenceAllSprites w) r =
     (if r \<in> set (sprites (gamestate w)) \<union> set (bgsprites (gamestate w)) then silence (heap w r) else heap w r)"
  by (auto simp: silenceAllSprites_def Let_def heap_silence_fold silence_eq)

lemma heap_GAME_OVER:
  "heap (setGamePhase PHASE_GAME_OVER w) r =
     (if score (gamestate w) > hiScore w \<and> r = Suc (next_ref w) then new_NewHiScore
      else if r = next_ref w then new_GameOverMessage
      else heap (silenceAllSprites w) r)"
  by (simp add: setGamePhase.simps Let_def split_def push_def new_def setMusic_eq split: option.splits)


lemma cls_new [simp]: "cls new_GameOverMessage = GameOverMessage" "cls new_NewHiScore = NewHiScore"
  by (simp_all add: new_GameOverMessage_def new_NewHiScore_def Sprite_def Let_def)






section \<open>The interaction pass on two sprites\<close>

lemma scan_step:
  "j < length (sprites (gamestate w)) \<Longrightarrow>
     interact_scan s1 j w = interact_scan s1 (Suc j) (interact_method s1 (sprites (gamestate w) ! j) w)"
  by (subst interact_scan.simps) simp

lemma scan_end: "\<not> j < length (sprites (gamestate w)) \<Longrightarrow> interact_scan s1 j w = Some w"
  by (subst interact_scan.simps) simp


lemma loop_step:
  assumes "i < length (sprites (gamestate w))"
    and "interact_scan (sprites (gamestate w) ! i) 0 w = Some w1"
    and "finished (sprites (gamestate w) ! i) w1 = (f, w2)"
  shows "interact_loop (Suc i) w = interact_loop i (if f then splice Fg i w2 else w2)"
  using assms by (simp add: Let_def)



lemma Player_interact_other:
  assumes "cls (heap w x) \<notin> {Broccoli, Onion, Lamb, Knife}"
  shows "Player_interact this x w = w"
  using assms by (cases "cls (heap w x)") (simp_all add: Player_interact_def Let_def)








lemma heap_Player_die:
  "heap (Player_die p w) r =
     (if score (gamestate w) > hiScore w \<and> r = Suc (next_ref w) then new_NewHiScore
      else if r = next_ref w then new_GameOverMessage
      else if r \<in> set (sprites (gamestate w)) \<union> set (bgsprites (gamestate w))
           then silence (if r = p then setAnimation ''dead'' (heap w p) else heap w r)
           else (if r = p then setAnimation ''dead'' (heap w p) else heap w r))"
  by (simp add: Player_die_def heap_GAME_OVER heap_silenceAll upd_def)








section \<open>The movement pass\<close>

lemma step_ok_upd: "step_ok c s w (upd s f w)"
  by (cases c) (simp_all add: step_ok_def upd_def)

lemma step_ok_trans: "step_ok c s w w1 \<Longrightarrow> step_ok c s w1 w2 \<Longrightarrow> step_ok c s w w2"
  unfolding step_ok_def
  apply (elim conjE exE)
  apply (intro conjI)
    apply (rule_tac x = "added @ addeda" in exI)
    apply auto
  done

lemma Player_steer_heap:
  "r \<noteq> s \<Longrightarrow> heap (Player_steer s w) r = heap w r"
  "hitbox (heap (Player_steer s w) s) = hitbox (heap w s)"
  by (simp_all add: Player_steer_def upd_def Let_def)

lemma step_ok_steer: "step_ok c s w (Player_steer s w)"
  by (cases c) (simp_all add: step_ok_def Player_steer_heap)

lemma Player_fire_step:
  assumes "hitbox (heap w s) \<noteq> None" "s < next_ref w"
  shows "\<exists>w1. Player_fire s w = Some w1 \<and> step_ok c s w w1"
proof (cases "fire (inputs (gamestate w)) \<and> knifeThrowCooldown (gamestate w) = 0 \<and> knives (gamestate w) \<noteq> 0")
  case False
  then show ?thesis
    by (cases c) (auto simp: Player_fire_def Let_def spendKnife_def step_ok_def upd_def)
next
  case True
  obtain hb where hb: "hitbox (heap w s) = Some hb" using assms(1) by auto
  show ?thesis
    using True hb assms(2)
    by (cases c)
      (auto simp: Player_fire_def Let_def spendKnife_def step_ok_def upd_def split_def
        Math_random_def new_def push_def setAnimation_def)
qed

lemma move_method_step:
  assumes "cls (heap w s) = Player \<longrightarrow> hitbox (heap w s) \<noteq> None" "s < next_ref w"
  shows "\<exists>w1. move_method s w = Some w1 \<and> step_ok c s w w1"
proof (cases "cls (heap w s) = Player")
  case True
  have "hitbox (heap (Player_steer s w) s) \<noteq> None" "s < next_ref (Player_steer s w)"
    using True assms by (simp_all add: Player_steer_heap)
  from Player_fire_step[OF this, of c] obtain w1 where
    f: "Player_fire s (Player_steer s w) = Some w1" and ok: "step_ok c s (Player_steer s w) w1"
    by blast
  have "move_method s w = Some (upd s ensureFullyOnScreen w1)"
    using True f by (simp add: move_method_def Player_move_def)
  moreover have "step_ok c s w (upd s ensureFullyOnScreen w1)"
    using step_ok_trans[OF step_ok_trans[OF step_ok_steer ok] step_ok_upd] .
  ultimately show ?thesis by blast
next
  case False
  then have "\<exists>f. move_method s w = Some (upd s f w) \<or> move_method s w = Some w"
    by (cases "cls (heap w s)")
      (auto simp: move_method_def Lamb_move_def road_move_def Onion_move_def Knife_move_def
        split: option.splits knife_state.splits)
  then show ?thesis
    using step_ok_upd[of c s w] by (cases c) (auto simp: step_ok_def)
qed

lemma finished_step:
  "\<exists>w2. finished s w1 = (\<not> isOnScreen (heap w1 s), w2)
        \<and> the_array c w2 = the_array c w1 \<and> next_ref w2 = next_ref w1
        \<and> (\<forall>r. r \<noteq> s \<longrightarrow> heap w2 r = heap w1 r)
        \<and> isOnScreen (heap w2 s) = isOnScreen (heap w1 s)
        \<and> cls (heap w2 s) = cls (heap w1 s) \<and> hitbox (heap w2 s) = hitbox (heap w1 s)"
  by (cases c) (auto simp: finished_def Let_def upd_def silence_eq isOnScreen_def)

lemma splice_fields:
  "the_array c (splice c i w) = take i (the_array c w) @ drop (Suc i) (the_array c w)"
  "heap (splice c i w) = heap w" "next_ref (splice c i w) = next_ref w"
  by (cases c; simp)+


lemma move_loop_spec:
  assumes "i \<le> length (the_array c w)"
    and "distinct (take i (the_array c w))"
    and "\<forall>r\<in>set (take i (the_array c w)).
           r < next_ref w \<and> (cls (heap w r) = Player \<longrightarrow> hitbox (heap w r) \<noteq> None)"
  shows "\<exists>w' added.
           move_loop c i w calls = Some (calls @ rev (take i (the_array c w)), w')
           \<and> the_array c w' =
               filter (\<lambda>r. isOnScreen (heap w' r)) (take i (the_array c w))
                 @ drop i (the_array c w) @ added
           \<and> (\<forall>r\<in>set added. next_ref w \<le> r)
           \<and> (\<forall>r. r < next_ref w \<and> r \<notin> set (take i (the_array c w)) \<longrightarrow> heap w' r = heap w r)
           \<and> next_ref w \<le> next_ref w'"
  using assms
proof (induction i arbitrary: w calls)
  case 0
  show ?case
    by (rule exI[of _ w], rule exI[of _ "[]"]) simp
next
  case (Suc i)
  let ?arr = "the_array c w"
  let ?s = "?arr ! i"
  have lt: "i < length ?arr" using Suc.prems(1) by simp
  have tk: "take (Suc i) ?arr = take i ?arr @ [?s]"
    using lt by (simp add: take_Suc_conv_app_nth)
  have s_new: "?s \<notin> set (take i ?arr)" and d: "distinct (take i ?arr)"
    using Suc.prems(2) tk by simp_all
  have s_ok: "?s < next_ref w" "cls (heap w ?s) = Player \<longrightarrow> hitbox (heap w ?s) \<noteq> None"
    using Suc.prems(3) tk by simp_all
  from move_method_step[OF s_ok(2) s_ok(1), of c] obtain w1 where
    mv: "move_method ?s w = Some w1" and ok: "step_ok c ?s w w1"
    by blast
  from ok obtain add1 where
    a1: "the_array c w1 = ?arr @ add1" and a1new: "\<forall>r\<in>set add1. next_ref w \<le> r"
    and fr1: "\<forall>r. r \<noteq> ?s \<and> r < next_ref w \<longrightarrow> heap w1 r = heap w r"
    and n1: "next_ref w \<le> next_ref w1"
    unfolding step_ok_def by blast
  from finished_step[of ?s w1 c] obtain w2 where
    fin: "finished ?s w1 = (\<not> isOnScreen (heap w1 ?s), w2)"
    and a2: "the_array c w2 = the_array c w1" and n2: "next_ref w2 = next_ref w1"
    and fr2: "\<forall>r. r \<noteq> ?s \<longrightarrow> heap w2 r = heap w1 r"
    and on2: "isOnScreen (heap w2 ?s) = isOnScreen (heap w1 ?s)"
    by blast
  define f where "f = (\<not> isOnScreen (heap w1 ?s))"
  define w3 where "w3 = (if f then splice c i w2 else w2)"
  have h3: "heap w3 = heap w2" and n3: "next_ref w3 = next_ref w2"
    by (simp_all add: w3_def splice_fields)
  have a3: "the_array c w3 = take i ?arr @ (if f then [] else [?s]) @ drop (Suc i) ?arr @ add1"
    using lt a1 a2 by (simp add: w3_def splice_fields Cons_nth_drop_Suc id_take_nth_drop[symmetric])
  have t3: "take i (the_array c w3) = take i ?arr"
    using lt a3 by simp
  have d3: "drop i (the_array c w3) = (if f then [] else [?s]) @ drop (Suc i) ?arr @ add1"
    using lt a3 by simp
  have unfold: "move_loop c (Suc i) w calls = move_loop c i w3 (calls @ [?s])"
    using lt mv fin by (simp add: w3_def f_def Let_def)
  have p1: "i \<le> length (the_array c w3)" using lt a3 by simp
  have p2: "distinct (take i (the_array c w3))" using t3 d by simp
  have p3: "\<forall>r\<in>set (take i (the_array c w3)).
              r < next_ref w3 \<and> (cls (heap w3 r) = Player \<longrightarrow> hitbox (heap w3 r) \<noteq> None)"
  proof
    fix r assume r: "r \<in> set (take i (the_array c w3))"
    then have rin: "r \<in> set (take (Suc i) ?arr)" and rne: "r \<noteq> ?s"
      using t3 tk s_new by auto
    have rl: "r < next_ref w" and rh: "cls (heap w r) = Player \<longrightarrow> hitbox (heap w r) \<noteq> None"
      using Suc.prems(3) rin by auto
    have "heap w3 r = heap w r" using h3 fr2 fr1 rne rl by simp
    then show "r < next_ref w3 \<and> (cls (heap w3 r) = Player \<longrightarrow> hitbox (heap w3 r) \<noteq> None)"
      using rl rh n1 n2 n3 by simp
  qed
  from Suc.IH[OF p1 p2 p3, of "calls @ [?s]"] obtain w' added where
    r1: "move_loop c i w3 (calls @ [?s]) = Some ((calls @ [?s]) @ rev (take i (the_array c w3)), w')"
    and r2: "the_array c w' =
               filter (\<lambda>r. isOnScreen (heap w' r)) (take i (the_array c w3))
                 @ drop i (the_array c w3) @ added"
    and r3: "\<forall>r\<in>set added. next_ref w3 \<le> r"
    and r4: "\<forall>r. r < next_ref w3 \<and> r \<notin> set (take i (the_array c w3)) \<longrightarrow> heap w' r = heap w3 r"
    and r5: "next_ref w3 \<le> next_ref w'"
    by blast
  have hs: "heap w' ?s = heap w2 ?s"
    using r4 s_ok(1) s_new t3 h3 n1 n2 n3 by simp
  then have on: "isOnScreen (heap w' ?s) = (\<not> f)"
    using on2 f_def by simp
  have c1: "move_loop c (Suc i) w calls = Some (calls @ rev (take (Suc i) ?arr), w')"
    using unfold r1 t3 tk by simp
  have c2: "the_array c w' =
              filter (\<lambda>r. isOnScreen (heap w' r)) (take (Suc i) ?arr)
                @ drop (Suc i) ?arr @ (add1 @ added)"
    using r2 t3 d3 tk on by simp
  have c3: "\<forall>r\<in>set (add1 @ added). next_ref w \<le> r"
    using a1new r3 n1 n2 n3 by auto
  have c4: "\<forall>r. r < next_ref w \<and> r \<notin> set (take (Suc i) ?arr) \<longrightarrow> heap w' r = heap w r"
  proof (intro allI impI)
    fix r assume r: "r < next_ref w \<and> r \<notin> set (take (Suc i) ?arr)"
    then have "r \<noteq> ?s" "r \<notin> set (take i (the_array c w3))" using tk t3 by auto
    then show "heap w' r = heap w r"
      using r r4 h3 fr2 fr1 n1 n2 n3 by simp
  qed
  have c5: "next_ref w \<le> next_ref w'" using r5 n1 n2 n3 by simp
  show ?case
    using c1 c2 c3 c4 c5 by blast
qed

text \<open>
  C6, as the specification states it: the movement pass visits the foreground sprites in
  the order of their insertion. In the run with the lamb placed on the player, the player
  (address 3) was pushed first and the lamb (address 4) second; \<^verbatim>\<open>move\<close> calls \<^verbatim>\<open>move()\<close>
  on the lamb first and on the player second.
\<close>

theorem move_order_counterexample:
  "sprites (gamestate duel0) = [3, 4] \<and> map_option fst (move Fg duel0) = Some [4, 3]"
  by code_simp

text \<open>
  C6, amended: the pass calls \<^verbatim>\<open>move()\<close> on the sprites that are in the array when it
  starts, from the last index down to the first, once each, and returns; afterwards the
  array holds, in their order, those of them that are on the screen (for which
  \<^verbatim>\<open>finished()\<close> is false), followed by what the pass has added, which it does not visit.
  The array is assumed to hold no sprite twice and only allocated addresses, and a player
  to have its hitbox, as the constructor gives it.
\<close>

theorem move_visits_backwards:
  assumes "distinct (the_array c w)"
    and "\<forall>r\<in>set (the_array c w).
           r < next_ref w \<and> (cls (heap w r) = Player \<longrightarrow> hitbox (heap w r) \<noteq> None)"
  shows "\<exists>w' added.
           move c w = Some (rev (the_array c w), w')
           \<and> the_array c w' = filter (\<lambda>r. isOnScreen (heap w' r)) (the_array c w) @ added
           \<and> (\<forall>r\<in>set added. next_ref w \<le> r)"
  using move_loop_spec[of "length (the_array c w)" c w "[]"] assms
  by (simp add: move_def) blast


theorem move_visits_backwards_witness:
  "distinct (the_array Fg exit0)
   \<and> list_all (\<lambda>r. r < next_ref exit0 \<and> \<not> Option.is_none (hitbox (heap exit0 r))) (the_array Fg exit0)
   \<and> the_array Fg exit0 = [3, 4]
   \<and> map_option fst (move Fg exit0) = Some [4, 3]
   \<and> the_array Fg (snd (the (move Fg exit0))) = [3]"
proof -
  have a: "the_array Fg exit0 = [3, 4]" by code_simp
  have b: "distinct (the_array Fg exit0)" using a by simp
  have c: "list_all (\<lambda>r. r < next_ref exit0 \<and> \<not> Option.is_none (hitbox (heap exit0 r)))
             (the_array Fg exit0)"
    by code_simp
  then have c': "\<forall>r\<in>set (the_array Fg exit0).
                   r < next_ref exit0 \<and> (cls (heap exit0 r) = Player \<longrightarrow> hitbox (heap exit0 r) \<noteq> None)"
    by (auto simp: list_all_iff Option.is_none_def)
  obtain w' where "move Fg exit0 = Some (rev (the_array Fg exit0), w')"
    using move_visits_backwards[OF b c'] by blast
  then have d: "map_option fst (move Fg exit0) = Some [4, 3]"
    using a by simp
  have e: "the_array Fg (snd (the (move Fg exit0))) = [3]" by code_simp
  show ?thesis using a b c d e by simp
qed

section \<open>Every handler returns\<close>

text \<open>A sane world stays sane through every method, pass and event handler, and each of
  them returns there: no \<^verbatim>\<open>TypeError\<close> is raised and every scan of the interaction pass
  ends. The page after \<^verbatim>\<open>game()\<close> is sane, so every state the script reaches is.\<close>

lemma good_keep:
  assumes "good s" "cls s' = cls s" "animations s' = animations s" "animation s' = animation s"
    "animFrame s' = animFrame s" "hitbox s \<noteq> None \<longrightarrow> hitbox s' \<noteq> None"
  shows "good s'"
  using assms by (auto simp: good_def has_animation_def)

lemma good_setAnimation: "good s \<Longrightarrow> has_animation nm s \<Longrightarrow> good (setAnimation nm s)"
  by (auto simp: good_def has_animation_def setAnimation_def)

lemma good_silence: "good s \<Longrightarrow> good (silence s)"
  by (auto simp: good_def has_animation_def silence_eq)

lemma good_Lamb_die: "good s \<Longrightarrow> cls s = Lamb \<Longrightarrow> good (Lamb_die s)"
  by (auto simp: good_def has_animation_def Lamb_die_def setAnimation_def)

lemma good_setState: "good s \<Longrightarrow> cls s = Knife \<Longrightarrow> good (setState st s)"
  by (cases st) (auto simp: good_def has_animation_def setState_def silence_eq setAnimation_def)

lemma ensure_fields:
  "cls (ensureFullyOnScreen s) = cls s" "animations (ensureFullyOnScreen s) = animations s"
  "animation (ensureFullyOnScreen s) = animation s" "animFrame (ensureFullyOnScreen s) = animFrame s"
  "hitbox (ensureFullyOnScreen s) = hitbox s"
  by (simp_all add: ensureFullyOnScreen_def Let_def)

lemma good_ensure: "good s \<Longrightarrow> good (ensureFullyOnScreen s)"
  using good_keep[of s "ensureFullyOnScreen s"] by (simp add: ensure_fields)

lemma good_onload: "good s \<Longrightarrow> good (image_onload wd ht s)"
  by (auto simp: good_def has_animation_def image_onload_def Let_def split: option.splits)

lemma good_resolved: "good s \<Longrightarrow> good (frames_resolved s)"
  by (auto simp: good_def has_animation_def frames_resolved_def)

lemma good_nextFrame:
  assumes "good s"
  shows "\<exists>img s'. nextFrame s = Some (img, s') \<and> good s'"
proof -
  from assms obtain an where an: "animation s = Some an" "animFrame s < length an"
    by (auto simp: good_def)
  show ?thesis
  proof (cases "ready s")
    case False
    then show ?thesis using assms by (simp add: nextFrame_def)
  next
    case True
    show ?thesis
    proof (cases "animFrameStep s \<ge> snd (an ! animFrame s)")
      case True
      from nextFrame_leaves(1)[OF \<open>ready s\<close> an True] obtain img where
        "nextFrame s = Some (img, s\<lparr>animFrameStep := 1,
           animFrame := (if animFrame s + 1 \<ge> length an then 0 else animFrame s + 1)\<rparr>)"
        by blast
      moreover have "good (s\<lparr>animFrameStep := 1,
           animFrame := (if animFrame s + 1 \<ge> length an then 0 else animFrame s + 1)\<rparr>)"
        using assms an by (auto simp: good_def has_animation_def)
      ultimately show ?thesis by blast
    next
      case False
      then have "animFrameStep s < snd (an ! animFrame s)" by simp
      from nextFrame_stays(1)[OF \<open>ready s\<close> an this] obtain img where
        "nextFrame s = Some (img, s\<lparr>animFrameStep := animFrameStep s + 1\<rparr>)"
        by blast
      moreover have "good (s\<lparr>animFrameStep := animFrameStep s + 1\<rparr>)"
        using assms by (auto simp: good_def has_animation_def)
      ultimately show ?thesis by blast
    qed
  qed
qed

lemma good_new:
  "good new_TitleScreen" "good new_ClickToStart" "good new_Credits" "good new_GameOverMessage"
  "good new_NewHiScore" "good new_Player" "good (new_Lamb rnd)" "good (new_Broccoli rnd)"
  "good (new_Onion px py sp)" "good (new_Knife st rnd)" "good (new_RoadLine y)" "good new_Sidewalk"
  by (simp_all add: good_def has_animation_def new_TitleScreen_def new_ClickToStart_def new_Credits_def
      new_GameOverMessage_def new_NewHiScore_def new_Player_def new_Lamb_def new_Broccoli_def
      new_Onion_def new_Knife_def new_RoadLine_def new_Sidewalk_def Sprite_def setAnimation_def
      setState_def silence_eq Let_def split: knife_state.splits)

lemma sane_keep:
  assumes "sane w" "heap w' = heap w" "phase (gamestate w') = phase (gamestate w)"
    "player (gamestate w') = player (gamestate w)"
  shows "sane w'"
  using assms by (simp add: sane_def)

lemma sane_upd: "sane w \<Longrightarrow> good (f (heap w r)) \<Longrightarrow> sane (upd r f w)"
  by (simp add: sane_def upd_def)

lemma sane_new: "sane w \<Longrightarrow> good obj \<Longrightarrow> sane (snd (new obj w))"
  by (simp add: sane_def new_def)

lemma sane_good: "sane w \<Longrightarrow> good (heap w r)"
  by (simp add: sane_def)

lemma sane_silence_fold: "sane w \<Longrightarrow> sane (foldl (\<lambda>v s. upd s silence v) w xs)"
  by (induction xs arbitrary: w) (simp_all add: sane_upd sane_good good_silence)

lemma sane_silenceAll: "sane w \<Longrightarrow> sane (silenceAllSprites w)"
  by (simp add: silenceAllSprites_def Let_def sane_silence_fold)

lemma sane_setGamePhase: "sane w \<Longrightarrow> sane (setGamePhase p w)"
proof (cases p)
  case PHASE_ATTRACT
  assume "sane w"
  then have "sane (silenceAllSprites w)" by (rule sane_silenceAll)
  then show ?thesis
    unfolding PHASE_ATTRACT
    by (simp add: setGamePhase.simps Let_def split_def new_def push_def setMusic_eq sane_def good_new)
next
  case PHASE_RUNNING
  assume "sane w"
  then show ?thesis
    unfolding PHASE_RUNNING
    by (simp add: setGamePhase.simps Let_def split_def new_def push_def setMusic_eq sane_def good_new)
next
  case PHASE_GAME_OVER
  assume "sane w"
  then have "sane (silenceAllSprites w)" by (rule sane_silenceAll)
  then show ?thesis
    unfolding PHASE_GAME_OVER
    by (simp add: setGamePhase.simps Let_def split_def new_def push_def setMusic_eq sane_def good_new
        split: option.splits)
qed

lemma good_Player: "good s \<Longrightarrow> cls s = Player \<Longrightarrow>
  has_animation ''walking'' s \<and> has_animation ''wielding'' s \<and> has_animation ''dead'' s \<and> hitbox s \<noteq> None"
  by (simp add: good_def)

lemma sane_spendKnife:
  assumes "sane w" "cls (heap w this) = Player"
  shows "sane (snd (spendKnife b this w))"
proof (cases "knives (gamestate w) = 0")
  case True
  have "good ((heap w this)\<lparr>sound := playSample ''outtaknives''\<rparr>)"
    using good_keep[OF sane_good[OF assms(1)], of _ this] by simp
  then show ?thesis
    using True assms(1) by (simp add: spendKnife_def sane_upd)
next
  case False
  let ?w1 = "gamestate_update (knives_update (\<lambda>k. k - 1)) w"
  have s1: "sane ?w1" using assms(1) by (rule sane_keep) simp_all
  have "good (setAnimation ''walking'' (heap ?w1 this))"
    using good_Player[of "heap w this"] sane_good[OF assms(1)] assms(2)
    by (simp add: good_setAnimation)
  then have "sane (upd this (setAnimation ''walking'') ?w1)"
    using s1 by (rule sane_upd[rotated])
  then show ?thesis
    using False s1 by (simp add: spendKnife_def Let_def)
qed

lemma cls_spendKnife [simp]: "cls (heap (snd (spendKnife b this w)) r) = cls (heap w r)"
  by (auto simp: spendKnife_def Let_def upd_def setAnimation_def)

lemma sane_Player_die:
  assumes "sane w" "cls (heap w this) = Player"
  shows "sane (Player_die this w)"
proof -
  have "good (setAnimation ''dead'' (heap w this))"
    using good_Player[of "heap w this"] sane_good[OF assms(1)] assms(2)
    by (simp add: good_setAnimation)
  then have "sane (upd this (setAnimation ''dead'') w)"
    using assms(1) by (rule sane_upd[rotated])
  then show ?thesis
    unfolding Player_die_def by (rule sane_setGamePhase)
qed

lemma sane_Player_steer: "sane w \<Longrightarrow> sane (Player_steer this w)"
proof -
  assume s: "sane w"
  have k: "\<And>v f. sane v \<Longrightarrow> cls (f (heap v this)) = cls (heap v this) \<Longrightarrow>
             animations (f (heap v this)) = animations (heap v this) \<Longrightarrow>
             animation (f (heap v this)) = animation (heap v this) \<Longrightarrow>
             animFrame (f (heap v this)) = animFrame (heap v this) \<Longrightarrow>
             hitbox (f (heap v this)) = hitbox (heap v this) \<Longrightarrow> sane (upd this f v)"
    by (rule sane_upd) (auto intro: good_keep sane_good)
  show ?thesis
    unfolding Player_steer_def Let_def
    using s by (auto intro!: k)
qed

lemma cls_Player_steer [simp]: "cls (heap (Player_steer this w) r) = cls (heap w r)"
  by (simp add: Player_steer_def Let_def upd_def)

lemma sane_Player_fire:
  assumes "sane w" "cls (heap w this) = Player"
  shows "\<exists>w1. Player_fire this w = Some w1 \<and> sane w1
           \<and> length (the_array c w) \<le> length (the_array c w1)"
proof (cases "fire (inputs (gamestate w)) \<and> knifeThrowCooldown (gamestate w) = 0")
  case False
  then show ?thesis using assms(1) by (auto simp: Player_fire_def)
next
  case True
  let ?w1 = "gamestate_update (knifeThrowCooldown_update (\<lambda>_. KNIFE_COOLDOWN_FRAMES)) w"
  have s1: "sane ?w1" using assms(1) by (rule sane_keep) simp_all
  have c1: "cls (heap ?w1 this) = Player" using assms(2) by simp
  let ?w2 = "snd (spendKnife True this ?w1)"
  have s2: "sane ?w2" using sane_spendKnife[OF s1 c1] .
  have l2: "the_array c ?w2 = the_array c w"
    by (cases c) (simp_all add: spendKnife_def Let_def upd_def)
  show ?thesis
  proof (cases "fst (spendKnife True this ?w1)")
    case False
    then have "Player_fire this w = Some ?w2"
      using True by (simp add: Player_fire_def Let_def split_def)
    then show ?thesis using s2 l2 by simp
  next
    case spent: True
    let ?rnd = "fst (Math_random ?w2)"
    let ?w3 = "snd (Math_random ?w2)"
    let ?k = "fst (new (new_Knife STATE_THROWN ?rnd) ?w3)"
    let ?w4 = "snd (new (new_Knife STATE_THROWN ?rnd) ?w3)"
    let ?w5 = "push ?k ?w4"
    have s3: "sane ?w3" using s2 by (rule sane_keep) (simp_all add: Math_random_def)
    have s4: "sane ?w4" using s3 by (rule sane_new) (rule good_new)
    have s5: "sane ?w5" using s4 by (rule sane_keep) (simp_all add: push_def)
    have h5: "hitbox (heap ?w5 this) \<noteq> None"
    proof (cases "this = ?k")
      case True
      then show ?thesis
        by (simp add: push_def new_def new_Knife_def Sprite_def setState_def silence_eq
            setAnimation_def Let_def)
    next
      case False
      then have "heap ?w5 this = heap ?w2 this"
        by (simp add: push_def new_def Math_random_def)
      moreover have "cls (heap ?w2 this) = Player" using c1 by simp
      ultimately show ?thesis
        using good_Player[OF sane_good[OF s2], of this] by simp
    qed
    then obtain hb where hb: "hitbox (heap ?w5 this) = Some hb" by auto
    let ?w6 = "upd ?k (\<lambda>k. k\<lparr>pos_x := pos_x (heap ?w5 this) + box_w hb,
                                pos_y := pos_y (heap ?w5 this)\<rparr>) ?w5"
    have "good ((heap ?w5 ?k)\<lparr>pos_x := pos_x (heap ?w5 this) + box_w hb,
                                pos_y := pos_y (heap ?w5 this)\<rparr>)"
      using good_keep[OF sane_good[OF s5], of _ ?k] by simp
    then have s6: "sane ?w6" using s5 by (rule sane_upd[rotated])
    have f: "Player_fire this w = Some ?w6"
      using True spent hb by (simp add: Player_fire_def Let_def split_def)
    have "length (the_array c w) \<le> length (the_array c ?w6)"
      using l2 by (cases c) (simp_all add: upd_def push_def new_def Math_random_def)
    then show ?thesis using f s6 by blast
  qed
qed

lemma sane_upd_pos:
  assumes "sane w" "cls (f (heap w r)) = cls (heap w r)" "animations (f (heap w r)) = animations (heap w r)"
    "animation (f (heap w r)) = animation (heap w r)" "animFrame (f (heap w r)) = animFrame (heap w r)"
    "hitbox (f (heap w r)) = hitbox (heap w r)"
  shows "sane (upd r f w)"
  using assms(1) by (rule sane_upd) (rule good_keep[OF sane_good[OF assms(1)]], auto simp: assms)

lemma sane_move_method:
  assumes "sane w"
  shows "\<exists>w1. move_method s w = Some w1 \<and> sane w1
           \<and> length (the_array c w) \<le> length (the_array c w1)"
proof (cases "cls (heap w s) = Player")
  case True
  have s1: "sane (Player_steer s w)" using assms by (rule sane_Player_steer)
  have c1: "cls (heap (Player_steer s w) s) = Player" using True by simp
  from sane_Player_fire[OF s1 c1, of c] obtain w1 where
    f: "Player_fire s (Player_steer s w) = Some w1" and s2: "sane w1"
    and l: "length (the_array c (Player_steer s w)) \<le> length (the_array c w1)"
    by blast
  have "sane (upd s ensureFullyOnScreen w1)"
    using s2 by (rule sane_upd) (rule good_ensure[OF sane_good[OF s2]])
  moreover have "move_method s w = Some (upd s ensureFullyOnScreen w1)"
    using True f by (simp add: move_method_def Player_move_def)
  moreover have "length (the_array c w) \<le> length (the_array c (upd s ensureFullyOnScreen w1))"
    using l by (cases c) (simp_all add: upd_def)
  ultimately show ?thesis by blast
next
  case False
  have "\<exists>f. (move_method s w = Some (upd s f w) \<or> move_method s w = Some w)
          \<and> cls (f (heap w s)) = cls (heap w s) \<and> animations (f (heap w s)) = animations (heap w s)
          \<and> animation (f (heap w s)) = animation (heap w s) \<and> animFrame (f (heap w s)) = animFrame (heap w s)
          \<and> hitbox (f (heap w s)) = hitbox (heap w s)"
  proof (cases "cls (heap w s)")
    case Lamb
    show ?thesis
    proof (cases "dead (heap w s)")
      case True
      then show ?thesis using Lamb
        by (auto simp: move_method_def Lamb_move_def
            intro!: exI[of _ "\<lambda>s. s\<lparr>pos_x := pos_x s - roadSpeed (gamestate w)\<rparr>"])
    next
      case False
      then show ?thesis using Lamb
        by (auto simp: move_method_def Lamb_move_def
            intro!: exI[of _ "\<lambda>s. s\<lparr>pos_x := pos_x s - lambSpeed (gamestate w)\<rparr>"])
    qed
  next
    case Knife
    then show ?thesis
    proof (cases "state (heap w s)")
      case None
      then show ?thesis using Knife
        by (auto simp: move_method_def Knife_move_def intro!: exI[of _ "\<lambda>s. s"])
    next
      case (Some st)
      show ?thesis
      proof (cases st)
        case STATE_GROUNDED
        then show ?thesis using Knife Some
          by (auto simp: move_method_def Knife_move_def
              intro!: exI[of _ "\<lambda>s. s\<lparr>pos_x := pos_x s - roadSpeed (gamestate w)\<rparr>"])
      next
        case STATE_THROWN
        then show ?thesis using Knife Some
          by (auto simp: move_method_def Knife_move_def
              intro!: exI[of _ "\<lambda>s. s\<lparr>pos_x := pos_x s + fst (velocity s),
                                        pos_y := pos_y s + snd (velocity s)\<rparr>"])
      qed
    qed
  next
    case Onion
    then show ?thesis
      by (auto simp: move_method_def Onion_move_def
          intro!: exI[of _ "\<lambda>s. s\<lparr>pos_y := pos_y s + speed s\<rparr>"])
  qed (use False in \<open>auto simp: move_method_def road_move_def
          intro!: exI[of _ "\<lambda>s. s\<lparr>pos_x := pos_x s - roadSpeed (gamestate w)\<rparr>"]\<close>)
  then obtain f where
    m: "move_method s w = Some (upd s f w) \<or> move_method s w = Some w"
    and k: "cls (f (heap w s)) = cls (heap w s)" "animations (f (heap w s)) = animations (heap w s)"
      "animation (f (heap w s)) = animation (heap w s)" "animFrame (f (heap w s)) = animFrame (heap w s)"
      "hitbox (f (heap w s)) = hitbox (heap w s)"
    by blast
  have "sane (upd s f w)" using sane_upd_pos[of w f s] assms k by simp
  moreover have "the_array c (upd s f w) = the_array c w" by (cases c) (simp_all add: upd_def)
  ultimately show ?thesis using m assms by auto
qed

lemma sane_finished:
  "sane w \<Longrightarrow> sane (snd (finished s w)) \<and> the_array c (snd (finished s w)) = the_array c w"
proof -
  assume s: "sane w"
  have "sane (upd s silence w)"
    using s by (rule sane_upd) (rule good_silence[OF sane_good[OF s]])
  moreover have "the_array c (upd s silence w) = the_array c w"
    by (cases c) (simp_all add: upd_def)
  ultimately show ?thesis
    using s by (simp add: finished_def Let_def)
qed

lemma sane_splice:
  "sane w \<Longrightarrow> sane (splice c i w)"
  by (cases c) (auto intro: sane_keep)

lemma length_splice:
  "i < length (the_array c w) \<Longrightarrow> i \<le> length (the_array c (splice c i w))"
  by (cases c) auto

lemma sane_move_loop:
  assumes "sane w" "i \<le> length (the_array c w)"
  shows "\<exists>calls' w'. move_loop c i w calls = Some (calls', w') \<and> sane w'"
  using assms
proof (induction i arbitrary: w calls)
  case 0
  then show ?case by simp
next
  case (Suc i)
  let ?s = "the_array c w ! i"
  have lt: "i < length (the_array c w)" using Suc.prems(2) by simp
  from sane_move_method[OF Suc.prems(1), of ?s c] obtain w1 where
    mv: "move_method ?s w = Some w1" and s1: "sane w1"
    and l1: "length (the_array c w) \<le> length (the_array c w1)"
    by blast
  let ?f = "fst (finished ?s w1)" and ?w2 = "snd (finished ?s w1)"
  let ?w3 = "if ?f then splice c i ?w2 else ?w2"
  have s2: "sane ?w2" and a2: "the_array c ?w2 = the_array c w1"
    using sane_finished[OF s1, of ?s c] by simp_all
  have s3: "sane ?w3" using s2 by (simp add: sane_splice)
  have l3: "i \<le> length (the_array c ?w3)"
    using lt l1 a2 length_splice[of i c ?w2] by auto
  have "move_loop c (Suc i) w calls = move_loop c i ?w3 (calls @ [?s])"
    using lt mv by (simp add: Let_def split_def)
  then show ?case using Suc.IH[OF s3 l3, of "calls @ [?s]"] by simp
qed

lemma sane_move:
  "sane w \<Longrightarrow> \<exists>calls w'. move c w = Some (calls, w') \<and> sane w'"
  unfolding move_def by (rule sane_move_loop) simp_all

lemma name_Lamb: "name c = ''Lamb'' \<longleftrightarrow> c = Lamb"
  by (cases c) simp_all

lemma name_hazard: "name c = ''Broccoli'' \<or> name c = ''Onion'' \<or> name c = ''Knife'' \<longleftrightarrow> c \<in> {Broccoli, Onion, Knife}"
  by (cases c) simp_all

lemma calm_refl [simp]: "calm w w"
  by (simp add: calm_def)

lemma loud_Player_die: "loud w (Player_die this w)"
  unfolding loud_def
  by (auto simp: gamestate_Player_die heap_Player_die silence_eq setAnimation_def)

lemma calm_kill: "calm w (kill p l w)"
  by (simp add: calm_def kill_def spendKnife_def Let_def upd_def Lamb_die_def setAnimation_def)

lemma Player_interact_effect:
  "calm w (Player_interact this other w)
   \<or> (cls (heap w other) \<in> {Broccoli, Onion, Knife} \<and> loud w (Player_interact this other w))"
proof -
  consider (hazard) "cls (heap w other) = Broccoli \<or> cls (heap w other) = Onion"
    | (lamb) "cls (heap w other) = Lamb"
    | (knife) "cls (heap w other) = Knife"
    | (other) "cls (heap w other) \<notin> {Broccoli, Onion, Lamb, Knife}"
    by (cases "cls (heap w other)") auto
  then show ?thesis
  proof cases
    case hazard
    then have "Player_interact this other w = w \<or> Player_interact this other w = Player_die this w"
      by (auto simp: Player_interact_def Let_def)
    then show ?thesis using hazard loud_Player_die[of w this] by auto
  next
    case lamb
    have "Player_interact this other w = w \<or> Player_interact this other w = kill this other w"
      using lamb by (simp add: Player_interact_def Let_def kill_def split_def spendKnife_def)
    then show ?thesis using calm_kill[of w this other] by auto
  next
    case knife
    let ?w1 = "gamestate_update (knives_update (\<lambda>k. k + 1)) w"
    let ?w2 = "if knives (gamestate ?w1) = 1 then upd this (setAnimation ''wielding'') ?w1 else ?w1"
    let ?w3 = "upd other (\<lambda>s. s\<lparr>pos_x := - 100\<rparr>) (gamestate_update (score_update (\<lambda>n. n + 100)) ?w2)"
    have c: "calm w ?w3"
      by (simp add: calm_def upd_def setAnimation_def)
    have "Player_interact this other w = w \<or> Player_interact this other w = Player_die this w
          \<or> Player_interact this other w = ?w3"
      using knife by (simp add: Player_interact_def Let_def)
    then show ?thesis using knife c loud_Player_die[of w this] by auto
  next
    case other
    then show ?thesis by (simp add: Player_interact_other)
  qed
qed

lemma Knife_interact_effect: "calm w (Knife_interact this other w)"
  by (auto simp: Knife_interact_def Let_def calm_def upd_def split_def Math_random_def
      Lamb_die_def setAnimation_def setState_def silence_eq split: knife_state.splits)

lemma interact_method_effect:
  "calm w (interact_method this other w)
   \<or> (cls (heap w other) \<in> {Broccoli, Onion, Knife} \<and> loud w (interact_method this other w))"
  using Player_interact_effect[of w this other] Knife_interact_effect[of w this other]
  by (cases "cls (heap w this)") (simp_all add: interact_method_def)

lemma sane_Player_interact:
  assumes "sane w" "cls (heap w this) = Player"
  shows "sane (Player_interact this other w)"
proof -
  let ?nm = "name (cls (heap w other))"
  have die: "sane (Player_die this w)" using sane_Player_die[OF assms] .
  consider (hazard) "?nm = ''Broccoli'' \<or> ?nm = ''Onion''"
    | (lamb) "cls (heap w other) = Lamb"
    | (knife) "cls (heap w other) = Knife"
    | (other) "cls (heap w other) \<notin> {Broccoli, Onion, Lamb, Knife}"
    by (cases "cls (heap w other)") auto
  then show ?thesis
  proof cases
    case hazard
    then show ?thesis using die assms(1) by (auto simp: Player_interact_def Let_def)
  next
    case lamb
    let ?w1 = "snd (spendKnife False this w)"
    have s1: "sane ?w1" using sane_spendKnife[OF assms] .
    have "cls (heap ?w1 other) = Lamb" using lamb by simp
    then have "good (Lamb_die (heap ?w1 other))"
      using good_Lamb_die[OF sane_good[OF s1]] by simp
    then have "sane (upd other Lamb_die ?w1)" using s1 by (rule sane_upd[rotated])
    then have "sane (gamestate_update (score_update (\<lambda>n. n + 1000)) (upd other Lamb_die ?w1))"
      by (rule sane_keep) simp_all
    then show ?thesis
      using lamb assms(1) s1 by (auto simp: Player_interact_def Let_def split_def)
  next
    case knife
    let ?w1 = "gamestate_update (knives_update (\<lambda>k. k + 1)) w"
    have s1: "sane ?w1" using assms(1) by (rule sane_keep) simp_all
    have "good (setAnimation ''wielding'' (heap ?w1 this))"
      using good_Player[of "heap w this"] sane_good[OF assms(1)] assms(2)
      by (simp add: good_setAnimation)
    then have s2: "sane (upd this (setAnimation ''wielding'') ?w1)"
      using s1 by (rule sane_upd[rotated])
    let ?w2 = "if knives (gamestate ?w1) = 1 then upd this (setAnimation ''wielding'') ?w1 else ?w1"
    have s2': "sane ?w2" using s1 s2 by simp
    let ?w3 = "gamestate_update (score_update (\<lambda>n. n + 100)) ?w2"
    have s3: "sane ?w3" using s2' by (rule sane_keep) simp_all
    have "sane (upd other (\<lambda>s. s\<lparr>pos_x := - 100\<rparr>) ?w3)"
      using sane_upd_pos[of ?w3 "\<lambda>s. s\<lparr>pos_x := - 100\<rparr>" other] s3 by simp
    then show ?thesis
      using knife assms(1) die by (auto simp: Player_interact_def Let_def)
  next
    case other
    then show ?thesis using assms(1) by (simp add: Player_interact_other)
  qed
qed

lemma sane_Knife_interact:
  assumes "sane w" "cls (heap w this) = Knife"
  shows "sane (Knife_interact this other w)"
proof -
  have g: "sane (upd this (setState STATE_GROUNDED) w)"
    using assms(1) by (rule sane_upd) (rule good_setState[OF sane_good[OF assms(1)] assms(2)])
  let ?w1 = "upd other Lamb_die w"
  let ?w2 = "gamestate_update (score_update (\<lambda>n. n + 1000)) ?w1"
  let ?w3 = "upd this (\<lambda>s. s\<lparr>velocity := (fst (velocity s) * (- 1), snd (velocity s))\<rparr>) ?w2"
  let ?w4 = "snd (Math_random ?w3)"
  let ?w5 = "upd this (\<lambda>s. s\<lparr>velocity := (fst (velocity s), fst (Math_random ?w3) * 4 - 2)\<rparr>) ?w4"
  have k: "cls (heap w other) = Lamb \<Longrightarrow> sane ?w5"
  proof -
    assume l: "cls (heap w other) = Lamb"
    have s1: "sane ?w1"
      using assms(1) by (rule sane_upd) (rule good_Lamb_die[OF sane_good[OF assms(1)] l])
    have s2: "sane ?w2" using s1 by (rule sane_keep) simp_all
    have s3: "sane ?w3"
      using sane_upd_pos[of ?w2 "\<lambda>s. s\<lparr>velocity := (fst (velocity s) * (- 1), snd (velocity s))\<rparr>" this] s2
      by simp
    have s4: "sane ?w4" using s3 by (rule sane_keep) (simp_all add: Math_random_def)
    show "sane ?w5"
      using sane_upd_pos[of ?w4 "\<lambda>s. s\<lparr>velocity := (fst (velocity s), fst (Math_random ?w3) * 4 - 2)\<rparr>" this] s4
      by simp
  qed
  show ?thesis
    using assms(1) g k
    by (auto simp: Knife_interact_def Let_def split_def name_Lamb)
qed

lemma sane_interact_method: "sane w \<Longrightarrow> sane (interact_method this other w)"
  by (cases "cls (heap w this)")
    (simp_all add: interact_method_def sane_Player_interact sane_Knife_interact)

lemma scan_size_step:
  "j < length (sprites (gamestate w)) \<Longrightarrow>
     scan_size j w = weight w (sprites (gamestate w) ! j) + scan_size (Suc j) w"
  by (simp add: scan_size_def Cons_nth_drop_Suc[symmetric])

lemma step_decreases:
  assumes "j < length (sprites (gamestate w))"
  shows "scan_size (Suc j) (interact_method s1 (sprites (gamestate w) ! j) w) < scan_size j w
         \<and> length (sprites (gamestate w))
             \<le> length (sprites (gamestate (interact_method s1 (sprites (gamestate w) ! j) w)))"
proof -
  let ?x = "sprites (gamestate w) ! j"
  let ?w' = "interact_method s1 ?x w"
  from interact_method_effect[of w s1 ?x] show ?thesis
  proof
    assume c: "calm w ?w'"
    then have "weight ?w' = weight w"
      by (auto simp: calm_def weight_def fun_eq_iff)
    then have "scan_size (Suc j) ?w' = scan_size (Suc j) w"
      using c by (simp add: calm_def scan_size_def)
    moreover have "0 < weight w ?x" by (simp add: weight_def)
    ultimately show ?thesis using scan_size_step[OF assms] c by (simp add: calm_def)
  next
    assume l: "cls (heap w ?x) \<in> {Broccoli, Onion, Knife} \<and> loud w ?w'"
    then obtain added where
      a: "sprites (gamestate ?w') = sprites (gamestate w) @ added" "length added \<le> 2"
        "\<forall>r\<in>set added. cls (heap ?w' r) \<in> {GameOverMessage, NewHiScore}"
      and k: "\<forall>r. cls (heap ?w' r) = cls (heap w r) \<or> cls (heap ?w' r) \<in> {GameOverMessage, NewHiScore}"
      unfolding loud_def by blast
    have le: "\<And>r. weight ?w' r \<le> weight w r"
    proof -
      fix r
      from k have "cls (heap ?w' r) = cls (heap w r)
                   \<or> cls (heap ?w' r) \<in> {GameOverMessage, NewHiScore}"
        by blast
      then show "weight ?w' r \<le> weight w r"
        by (auto simp: weight_def)
    qed
    have "sum_list (map (weight ?w') added) = length added"
      using a(3) by (induction added) (auto simp: weight_def)
    then have s1: "sum_list (map (weight ?w') added) \<le> 2" using a(2) by simp
    have s2: "sum_list (map (weight ?w') (drop (Suc j) (sprites (gamestate w))))
              \<le> sum_list (map (weight w) (drop (Suc j) (sprites (gamestate w))))"
      by (rule sum_list_mono) (rule le)
    have "scan_size (Suc j) ?w' =
            sum_list (map (weight ?w') (drop (Suc j) (sprites (gamestate w))))
            + sum_list (map (weight ?w') added)"
      using assms a(1) by (simp add: scan_size_def)
    then have "scan_size (Suc j) ?w' \<le> scan_size (Suc j) w + 2"
      using s1 s2 by (simp add: scan_size_def)
    moreover have "weight w ?x = 3" using l by (simp add: weight_def)
    ultimately show ?thesis using scan_size_step[OF assms] a(1) by simp
  qed
qed

lemma scan_terminates:
  assumes "sane w"
  shows "\<exists>w'. interact_scan s1 j w = Some w' \<and> sane w'
           \<and> length (sprites (gamestate w)) \<le> length (sprites (gamestate w'))"
  using assms
proof (induction "scan_size j w" arbitrary: j w rule: less_induct)
  case less
  show ?case
  proof (cases "j < length (sprites (gamestate w))")
    case False
    then show ?thesis using less.prems by (simp add: scan_end)
  next
    case True
    let ?w' = "interact_method s1 (sprites (gamestate w) ! j) w"
    have d: "scan_size (Suc j) ?w' < scan_size j w"
      and l: "length (sprites (gamestate w)) \<le> length (sprites (gamestate ?w'))"
      using step_decreases[OF True, of s1] by simp_all
    have s: "sane ?w'" using less.prems by (rule sane_interact_method)
    from less.hyps[OF d s] obtain w'' where
      "interact_scan s1 (Suc j) ?w' = Some w''" "sane w''"
      "length (sprites (gamestate ?w')) \<le> length (sprites (gamestate w''))"
      by blast
    then show ?thesis using scan_step[OF True, of s1] l by auto
  qed
qed

lemma sane_interact_loop:
  assumes "sane w" "i \<le> length (sprites (gamestate w))"
  shows "\<exists>w'. interact_loop i w = Some w' \<and> sane w'"
  using assms
proof (induction i arbitrary: w)
  case 0
  then show ?case by simp
next
  case (Suc i)
  let ?s = "sprites (gamestate w) ! i"
  have lt: "i < length (sprites (gamestate w))" using Suc.prems(2) by simp
  from scan_terminates[OF Suc.prems(1), of ?s 0] obtain w1 where
    sc: "interact_scan ?s 0 w = Some w1" and s1: "sane w1"
    and l1: "length (sprites (gamestate w)) \<le> length (sprites (gamestate w1))"
    by blast
  let ?f = "fst (finished ?s w1)" and ?w2 = "snd (finished ?s w1)"
  let ?w3 = "if ?f then splice Fg i ?w2 else ?w2"
  have s2: "sane ?w2" and a2: "the_array Fg ?w2 = the_array Fg w1"
    using sane_finished[OF s1, of ?s Fg] by simp_all
  have s3: "sane ?w3" using s2 sane_splice[of ?w2 Fg i] by (simp del: splice.simps)
  have l3: "i \<le> length (sprites (gamestate ?w3))"
    using lt l1 a2 length_splice[of i Fg ?w2] by auto
  have "interact_loop (Suc i) w = interact_loop i ?w3"
    using loop_step[OF lt sc, of ?f ?w2] by simp
  then show ?case using Suc.IH[OF s3 l3] by simp
qed

lemma sane_interact: "sane w \<Longrightarrow> \<exists>w'. interact w = Some w' \<and> sane w'"
  unfolding interact_def by (rule sane_interact_loop) simp_all

lemma sane_alloc_push:
  "sane w \<Longrightarrow> good obj \<Longrightarrow> sane (push (fst (new obj w)) (snd (new obj w)))"
  "sane w \<Longrightarrow> good obj \<Longrightarrow> sane (push_bg (fst (new obj w)) (snd (new obj w)))"
  by (simp_all add: sane_def new_def push_def push_bg_def)

lemma phase_alloc_push [simp]:
  "phase (gamestate (push r w)) = phase (gamestate w)"
  "phase (gamestate (push_bg r w)) = phase (gamestate w)"
  "phase (gamestate (snd (new obj w))) = phase (gamestate w)"
  "phase (gamestate (snd (Math_random w))) = phase (gamestate w)"
  by (simp_all add: push_def push_bg_def new_def Math_random_def)

lemma sane_spawn_Lamb: "sane w \<Longrightarrow> same_phase w (spawn_Lamb w)"
  by (simp add: same_phase_def spawn_Lamb_def Let_def split_def sane_def new_def push_def
      Math_random_def good_new)

lemma sane_new_lamb: "sane w \<Longrightarrow> same_phase w (new_lamb w)"
proof -
  assume s: "sane w"
  have f: "\<And>l. same_phase w (snd (finished l w))"
    using sane_finished[OF s, of _ Fg] gamestate_finished by (simp add: same_phase_def)
  have "\<And>l. same_phase w (spawn_Lamb (snd (finished l w)))"
  proof -
    fix l
    have "sane (snd (finished l w))" using f[of l] by (simp add: same_phase_def)
    from sane_spawn_Lamb[OF this] f[of l] show "same_phase w (spawn_Lamb (snd (finished l w)))"
      by (simp add: same_phase_def)
  qed
  then show ?thesis
    using s f sane_spawn_Lamb[OF s]
    by (auto simp: new_lamb_def Let_def split_def split: option.splits)
qed

lemma sane_new_broccoli: "sane w \<Longrightarrow> same_phase w (new_broccoli w)"
  by (simp add: same_phase_def new_broccoli_def Let_def split_def sane_def new_def push_def
      Math_random_def good_new)

lemma sane_road_fold:
  "sane w \<Longrightarrow> same_phase w (foldl (\<lambda>v y. let (r, v) = new (new_RoadLine y) v in push_bg r v) w ys)"
proof (induction ys arbitrary: w)
  case Nil
  then show ?case by (simp add: same_phase_def)
next
  case (Cons y ys)
  let ?w1 = "push_bg (fst (new (new_RoadLine y) w)) (snd (new (new_RoadLine y) w))"
  have s1: "sane ?w1" using Cons.prems by (simp add: sane_alloc_push good_new)
  from Cons.IH[OF s1] show ?case
    by (simp add: same_phase_def Let_def split_def)
qed

lemma sane_new_road_lines: "sane w \<Longrightarrow> same_phase w (new_road_lines w)"
proof -
  assume s: "sane w"
  let ?w1 = "gamestate_update (nextRoadLine_update (\<lambda>n. n - 1)) w"
  let ?w2 = "gamestate_update (nextRoadLine_update (\<lambda>_. roadLineFrequency (gamestate ?w1))) ?w1"
  have s1: "sane ?w1" using s by (rule sane_keep) simp_all
  have s2: "sane ?w2" using s1 by (rule sane_keep) simp_all
  from sane_road_fold[OF s2, of ROAD_LINE_YS] s1 show ?thesis
    by (simp add: same_phase_def new_road_lines_def Let_def)
qed

lemma sane_new_sidewalk: "sane w \<Longrightarrow> same_phase w (new_sidewalk w)"
  by (simp add: same_phase_def new_sidewalk_def Let_def split_def sane_def new_def push_bg_def good_new)

lemma sane_new_knife: "sane w \<Longrightarrow> same_phase w (new_knife w)"
  by (simp add: same_phase_def new_knife_def Let_def split_def sane_def new_def push_def
      Math_random_def good_new)

lemma sane_cool_down: "sane w \<Longrightarrow> same_phase w (cool_down w)"
  by (simp add: same_phase_def cool_down_def sane_def)

lemma sane_new_onions:
  assumes "sane w" "phase (gamestate w) = PHASE_RUNNING"
  shows "\<exists>w1. new_onions w = Some w1 \<and> sane w1"
proof -
  obtain p where p: "player (gamestate w) = Some p"
    using assms by (auto simp: sane_def)
  show ?thesis
    using assms(1) p
    by (simp add: new_onions_def Let_def split_def sane_def new_def push_def good_new)
qed

lemma same_phase_trans: "same_phase a b \<Longrightarrow> same_phase b c \<Longrightarrow> same_phase a c"
  by (simp add: same_phase_def)

lemma sane_running_tick:
  assumes "sane w" "phase (gamestate w) = PHASE_RUNNING"
  shows "\<exists>w'. running_tick w = Some w' \<and> sane w'"
proof -
  let ?w0 = "new_sidewalk (new_road_lines (new_broccoli (new_lamb w)))"
  have a: "same_phase w (new_lamb w)" using sane_new_lamb[OF assms(1)] .
  then have b: "same_phase w (new_broccoli (new_lamb w))"
    using sane_new_broccoli[of "new_lamb w"] by (simp add: same_phase_def)
  then have c: "same_phase w (new_road_lines (new_broccoli (new_lamb w)))"
    using sane_new_road_lines[of "new_broccoli (new_lamb w)"] by (simp add: same_phase_def)
  then have d: "same_phase w ?w0"
    using sane_new_sidewalk[of "new_road_lines (new_broccoli (new_lamb w))"]
    by (simp add: same_phase_def)
  then have "sane ?w0" "phase (gamestate ?w0) = PHASE_RUNNING"
    using assms(2) by (simp_all add: same_phase_def)
  from sane_new_onions[OF this] obtain w1 where o: "new_onions ?w0 = Some w1" and s1: "sane w1"
    by blast
  have s2: "sane (cool_down (new_knife w1))"
    using sane_new_knife[OF s1] sane_cool_down[of "new_knife w1"] by (simp add: same_phase_def)
  from sane_move[OF s2, of Bg] obtain c2 w2 where
    m1: "move Bg (cool_down (new_knife w1)) = Some (c2, w2)" and s3: "sane w2"
    by blast
  from sane_move[OF s3, of Fg] obtain c3 w3 where
    m2: "move Fg w2 = Some (c3, w3)" and s4: "sane w3"
    by blast
  from sane_interact[OF s4] obtain w' where i: "interact w3 = Some w'" and s5: "sane w'"
    by blast
  have "running_tick w = Some w'"
    using o m1 m2 i by (simp add: running_tick_def)
  then show ?thesis using s5 by blast
qed

lemma sane_phase_hook: "sane w \<Longrightarrow> \<exists>w'. phase_hook w = Some w' \<and> sane w'"
proof (cases "phase (gamestate w)")
  case PHASE_RUNNING
  assume "sane w"
  from sane_running_tick[OF this PHASE_RUNNING] show ?thesis
    using PHASE_RUNNING by (simp add: phase_hook_def)
next
  case PHASE_ATTRACT
  assume "sane w"
  then show ?thesis using PHASE_ATTRACT by (simp add: phase_hook_def)
next
  case PHASE_GAME_OVER
  assume "sane w"
  then show ?thesis using PHASE_GAME_OVER
    by (simp add: phase_hook_def Let_def setMusic_eq sane_def)
qed

lemma sane_render: "sane w \<Longrightarrow> \<exists>w'. render ss w = Some w' \<and> sane w'"
proof (induction ss arbitrary: w)
  case Nil
  then show ?case by simp
next
  case (Cons s ss)
  from good_nextFrame[OF sane_good[OF Cons.prems], of s] obtain img s' where
    nf: "nextFrame (heap w s) = Some (img, s')" and g: "good s'"
    by blast
  let ?w1 = "w\<lparr>heap := (heap w)(s := s')\<rparr>"
  let ?w2 = "?w1\<lparr>canvas := canvas ?w1 @ [(img, pos_x (heap ?w1 s), pos_y (heap ?w1 s))]\<rparr>"
  have s1: "sane ?w1" using Cons.prems g by (simp add: sane_def)
  have s2: "sane ?w2" using s1 by (simp add: sane_def)
  show ?case
  proof (cases "img = Null \<or> img = Undefined")
    case True
    then show ?thesis using nf Cons.IH[OF s1] by (simp add: Let_def)
  next
    case False
    then show ?thesis using nf Cons.IH[OF s2] by (simp add: Let_def)
  qed
qed

lemma sane_prepareRender: "sane w \<Longrightarrow> sane (prepareRender w)"
  by (simp add: prepareRender_def Let_def sane_def)

lemma sane_gameloop: "sane w \<Longrightarrow> \<exists>w'. gameloop w = Some w' \<and> sane w'"
proof -
  assume s: "sane w"
  let ?w0 = "if \<not> loop_ready w
               then w\<lparr>loop_ready := list_all (\<lambda>s. ready (heap w s)) (sprites (gamestate w))\<rparr>
               else w"
  have s0: "sane ?w0" using s by (simp add: sane_def)
  show ?thesis
  proof (cases "loop_ready ?w0")
    case False
    then have "gameloop w = Some ?w0" by (simp add: gameloop_def Let_def)
    then show ?thesis using s0 by simp
  next
    case True
    from sane_phase_hook[OF s0] obtain w1 where h: "phase_hook ?w0 = Some w1" and s1: "sane w1"
      by blast
    let ?w2 = "prepareRender w1"
    have s2: "sane ?w2" using s1 by (rule sane_prepareRender)
    from sane_render[OF s2, of "bgsprites (gamestate ?w2)"] obtain w3 where
      r1: "render (bgsprites (gamestate ?w2)) ?w2 = Some w3" and s3: "sane w3"
      by blast
    from sane_render[OF s3, of "sprites (gamestate w3)"] obtain w' where
      r2: "render (sprites (gamestate w3)) w3 = Some w'" and s4: "sane w'"
      by blast
    have "gameloop w = Some w'"
      using True h r1 r2 by (simp add: gameloop_def Let_def)
    then show ?thesis using s4 by blast
  qed
qed

lemma sane_startGameAndSound: "sane w \<Longrightarrow> sane (startGameAndSound w)"
  by (simp add: startGameAndSound_def sane_setGamePhase)

lemma sane_set_input: "sane w \<Longrightarrow> sane (set_input f w)"
  by (simp add: set_input_def sane_def)

lemma sane_handle: "sane w \<Longrightarrow> \<exists>w'. handle e w = Some w' \<and> sane w'"
proof (cases e)
  case Timer
  assume "sane w"
  then show ?thesis using Timer sane_gameloop by simp
next
  case (Keydown kc)
  assume "sane w"
  then show ?thesis using Keydown
    by (simp add: keydown_def Let_def sane_set_input sane_startGameAndSound)
next
  case (Keyup kc)
  assume "sane w"
  then show ?thesis using Keyup by (simp add: keyup_def sane_set_input)
next
  case Click
  assume "sane w"
  then show ?thesis using Click by (simp add: sane_startGameAndSound)
next
  case (Image_onload r wd ht)
  assume s: "sane w"
  have "sane (upd r (image_onload wd ht) w)"
    using s by (rule sane_upd) (rule good_onload[OF sane_good[OF s]])
  then show ?thesis using Image_onload by simp
next
  case (Frames_resolved r)
  assume s: "sane w"
  have "sane (upd r frames_resolved w)"
    using s by (rule sane_upd) (rule good_resolved[OF sane_good[OF s]])
  then show ?thesis using Frames_resolved by simp
qed

lemma sane_handle_all: "sane w \<Longrightarrow> \<exists>w'. handle_all es w = Some w' \<and> sane w'"
proof (induction es arbitrary: w)
  case Nil
  then show ?case by simp
next
  case (Cons e es)
  from sane_handle[OF Cons.prems, of e] obtain w1 where "handle e w = Some w1" "sane w1"
    by blast
  then show ?case using Cons.IH[of w1] by simp
qed

lemma sane_boot: "sane (boot store rnds)"
  unfolding boot_def
  by (rule sane_setGamePhase) (simp add: sane_def good_new INITIAL_GAMESTATE_def)

lemma sane_examples:
  "sane world0" "sane run0" "sane armed0" "sane scored0"
proof -
  show w: "sane world0" by (simp add: world0_def sane_boot)
  show r: "sane run0" using w by (simp add: run0_def sane_setGamePhase)
  have "good ((frames_resolved \<circ> image_onload 32 256) (heap run0 3))"
    using good_resolved[OF good_onload[OF sane_good[OF r]]] by simp
  then have "sane (upd 3 (frames_resolved \<circ> image_onload 32 256) run0)"
    using r by (rule sane_upd[rotated])
  then show a: "sane armed0"
    unfolding armed0_def by (rule sane_keep) simp_all
  show "sane scored0"
    unfolding scored0_def using a by (rule sane_keep) simp_all
qed

section \<open>What holds throughout a run\<close>

text \<open>
  C9: in a sane world, a run starts with the score 0, and from there on, as long as no
  event starts a new run, every event is handled and none lowers the score: after any
  events of the run the score is at least 0, and after further events it is at least
  what it was.
\<close>

theorem score_monotone_within_run:
  assumes "sane w0"
    and "within_run (es1 @ es2) (setGamePhase PHASE_RUNNING w0)"
  shows "\<exists>w1 w2. handle_all es1 (setGamePhase PHASE_RUNNING w0) = Some w1
           \<and> handle_all es2 w1 = Some w2
           \<and> score (gamestate (setGamePhase PHASE_RUNNING w0)) = 0
           \<and> 0 \<le> score (gamestate w1)
           \<and> score (gamestate w1) \<le> score (gamestate w2)"
proof -
  let ?r = "setGamePhase PHASE_RUNNING w0"
  have sr: "sane ?r" using assms(1) by (rule sane_setGamePhase)
  from sane_handle_all[OF sr, of es1] obtain w1 where
    w1: "handle_all es1 ?r = Some w1" and s1: "sane w1"
    by blast
  from sane_handle_all[OF s1, of es2] obtain w2 where
    w2: "handle_all es2 w1 = Some w2"
    by blast
  have z: "score (gamestate ?r) = 0"
    by (simp add: setGamePhase.simps Let_def setMusic_def new_def push_def INITIAL_GAMESTATE_def
        split: option.splits)
  have wr: "within_run es1 ?r" "within_run es2 w1"
    using within_run_append[OF assms(2) w1] by simp_all
  have "grows ?r w1"
    using handle_all_grows[OF wr(1) w1] .
  moreover have "grows w1 w2"
    using handle_all_grows[OF wr(2) w2] .
  ultimately show ?thesis
    using z w1 w2 by (simp add: grows_def)
qed

theorem score_monotone_within_run_witness:
  "sane world0
   \<and> within_run ([Image_onload 3 32 256, Frames_resolved 3, Timer] @ [Keydown 32]) run0
   \<and> \<not> Option.is_none (handle_all [Image_onload 3 32 256, Frames_resolved 3, Timer] run0)
   \<and> 0 \<le> score (gamestate (the (handle_all [Image_onload 3 32 256, Frames_resolved 3, Timer] run0)))
   \<and> score (gamestate (the (handle_all [Image_onload 3 32 256, Frames_resolved 3, Timer] run0)))
       \<le> score (gamestate (keydown 32
            (the (handle_all [Image_onload 3 32 256, Frames_resolved 3, Timer] run0))))"
proof -
  have a: "within_run ([Image_onload 3 32 256, Frames_resolved 3, Timer] @ [Keydown 32])
             (setGamePhase PHASE_RUNNING world0)"
    by code_simp
  obtain w1 w2 where
    "handle_all [Image_onload 3 32 256, Frames_resolved 3, Timer] (setGamePhase PHASE_RUNNING world0)
       = Some w1"
    "handle_all [Keydown 32] w1 = Some w2"
    "0 \<le> score (gamestate w1)" "score (gamestate w1) \<le> score (gamestate w2)"
    using score_monotone_within_run[OF sane_examples(1) a] by blast
  then show ?thesis
    using a sane_examples(1) by (auto simp: run0_def Option.is_none_def)
qed

text \<open>
  C10: the knives are never negative. The initial game state has 3; \<^verbatim>\<open>spendKnife\<close> at 0
  returns \<^verbatim>\<open>false\<close> and leaves 0; and in a sane world, whatever events arrive, starting a new
  run or not, they are handled and a count that was at least 0 before them is at least 0
  after them.
\<close>

theorem knives_never_negative:
  assumes "sane w" and "0 \<le> knives (gamestate w)"
  shows "0 \<le> knives INITIAL_GAMESTATE
         \<and> (knives (gamestate w) = 0 \<longrightarrow>
              \<not> fst (spendKnife b r w) \<and> knives (gamestate (snd (spendKnife b r w))) = 0)
         \<and> (\<exists>w'. handle_all es w = Some w' \<and> 0 \<le> knives (gamestate w'))"
proof (intro conjI)
  show "0 \<le> knives INITIAL_GAMESTATE"
    by (simp add: INITIAL_GAMESTATE_def)
  show "knives (gamestate w) = 0 \<longrightarrow>
          \<not> fst (spendKnife b r w) \<and> knives (gamestate (snd (spendKnife b r w))) = 0"
    by (simp add: spendKnife_def upd_def)
  from sane_handle_all[OF assms(1), of es] obtain w' where w': "handle_all es w = Some w'"
    by blast
  have "0 \<le> knives (gamestate w')"
    using w' assms(2)
  proof (induction es arbitrary: w)
    case Nil
    then show ?case by simp
  next
    case (Cons e es)
    from Cons.prems(1) obtain w1 where h: "handle e w = Some w1"
      and r: "handle_all es w1 = Some w'"
      by (auto split: option.splits)
    show ?case
      using Cons.IH[OF r handle_knives[OF h Cons.prems(2)]] .
  qed
  then show "\<exists>w'. handle_all es w = Some w' \<and> 0 \<le> knives (gamestate w')"
    using w' by blast
qed

theorem knives_never_negative_witness:
  "sane armed0 \<and> knives (gamestate armed0) = 3
   \<and> \<not> Option.is_none (handle_all [Keydown 32, Timer] armed0)
   \<and> 0 \<le> knives (gamestate (the (handle_all [Keydown 32, Timer] armed0)))"
proof -
  have k: "knives (gamestate armed0) = 3"
    by code_simp
  then have k0: "0 \<le> knives (gamestate armed0)" by simp
  obtain w' where "handle_all [Keydown 32, Timer] armed0 = Some w'" "0 \<le> knives (gamestate w')"
    using knives_never_negative[OF sane_examples(3) k0, of _ _ "[Keydown 32, Timer]"] by blast
  then show ?thesis
    using k sane_examples(3) by (simp add: Option.is_none_def)
qed



end
